theory Spec2Isabelle
  imports Main "HOL-Library.Word"
begin

unbundle bit_operations_syntax

section \<open>Data model of rflink.h\<close>

text \<open>
  The library targets 8-bit AVR boards: \<^verbatim>\<open>byte\<close> and \<^verbatim>\<open>address_t\<close> are 8 bits,
  \<^verbatim>\<open>pktid_t\<close> and \<^verbatim>\<open>taskid_t\<close> 16 bits, \<^verbatim>\<open>mtime_t\<close> (\<^verbatim>\<open>long unsigned int\<close>) 32 bits,
  and \<^verbatim>\<open>sizeof(Header)\<close> is 6 (no padding).  Arithmetic on these types wraps.
\<close>

type_synonym byte = "8 word"
type_synonym address_t = "8 word"
type_synonym pktid_t = "16 word"
type_synonym taskid_t = "16 word"
type_synonym mtime_t = "32 word"

text \<open>
  What stops the program: a failed \<^verbatim>\<open>assert\<close> (the build without \<^verbatim>\<open>RFLINK_DEBUG\<close>
  includes \<^verbatim>\<open>assert.h\<close>), a dereferenced null pointer, an array access out of range.
\<close>

datatype error = AssertFailed | NullDeref | OutOfBounds

definition err_bind :: "error + 'a \<Rightarrow> ('a \<Rightarrow> error + 'b) \<Rightarrow> error + 'b" where
  "err_bind m f = (case m of Inl e \<Rightarrow> Inl e | Inr x \<Rightarrow> f x)"

definition PKTID_CACHE_SIZE :: nat where
  "PKTID_CACHE_SIZE = 10"

definition CACHE_PKTID_DISCARD_DELAY :: mtime_t where
  "CACHE_PKTID_DISCARD_DELAY = 176400000"

record cache_pktid_t =
  used :: bool
  cache_src :: address_t
  mtime :: mtime_t
  last_pktid_seen :: pktid_t

section \<open>The duplicate cache: \<^verbatim>\<open>RFLink::check_pktid_already_seen\<close>\<close>

text \<open>The locals of \<^verbatim>\<open>check_pktid_already_seen\<close> that live across loop iterations.\<close>

record cache_scan =
  src_found :: bool
  unused_entry_idx :: int
  oldest_entry_idx :: int
  biggest_elapsed_found :: mtime_t
  ret :: bool

definition cache_scan_init :: cache_scan where
  "cache_scan_init = \<lparr> src_found = False, unused_entry_idx = -1, oldest_entry_idx = -1,
     biggest_elapsed_found = 0, ret = False \<rparr>"

text \<open>
  The \<^verbatim>\<open>for\<close> loop over \<^verbatim>\<open>cache_pktids[i]\<close>.  The body (\<open>cache_body\<close>) only reads and
  writes the current entry and the locals, so the loop is a recursion over the entries
  from index \<open>i\<close> on, returning them updated.
\<close>

definition cache_body ::
  "mtime_t \<Rightarrow> address_t \<Rightarrow> pktid_t \<Rightarrow> int \<Rightarrow> cache_pktid_t \<Rightarrow> cache_scan
     \<Rightarrow> error + (cache_pktid_t \<times> cache_scan)" where
  "cache_body tref s p i current sc =
     (let elapsed = tref - mtime current;
          current = (if used current \<and> elapsed \<ge> CACHE_PKTID_DISCARD_DELAY
                     then current\<lparr>used := False\<rparr> else current)
      in if \<not> used current then
           Inr (current, if unused_entry_idx sc < 0 then sc\<lparr>unused_entry_idx := i\<rparr> else sc)
         else if cache_src current = s then
           (if ret sc then Inl AssertFailed
            else
              let sc = sc\<lparr>src_found := True\<rparr>;
                  current = current\<lparr>mtime := tref\<rparr>
              in if last_pktid_seen current = p then Inr (current, sc\<lparr>ret := True\<rparr>)
                 else Inr (current\<lparr>last_pktid_seen := p\<rparr>, sc))
         else if elapsed > biggest_elapsed_found sc then
           Inr (current, sc\<lparr>biggest_elapsed_found := elapsed, oldest_entry_idx := i\<rparr>)
         else Inr (current, sc))"

fun cache_loop ::
  "mtime_t \<Rightarrow> address_t \<Rightarrow> pktid_t \<Rightarrow> int \<Rightarrow> cache_pktid_t list \<Rightarrow> cache_scan
     \<Rightarrow> error + (cache_pktid_t list \<times> cache_scan)" where
  "cache_loop tref s p i [] sc = Inr ([], sc)"
| "cache_loop tref s p i (current # rest) sc =
     err_bind (cache_body tref s p i current sc)
       (\<lambda>(current', sc').
          err_bind (cache_loop tref s p (i + 1) rest sc')
            (\<lambda>(rest', sc''). Inr (current' # rest', sc'')))"

text \<open>
  \<^verbatim>\<open>check_pktid_already_seen(src, pktid)\<close> on the table \<open>cache\<close> at time \<open>tref\<close>
  (the value of \<^verbatim>\<open>get_current_time()\<close>).  When the source was not found and there is no
  unused entry, \<^verbatim>\<open>idx = oldest_entry_idx\<close>, which is still \<open>-1\<close> if no entry had an
  elapsed time above 0: the write to \<^verbatim>\<open>cache_pktids[idx]\<close> is then out of the array.
\<close>

definition check_pktid_already_seen ::
  "mtime_t \<Rightarrow> address_t \<Rightarrow> pktid_t \<Rightarrow> cache_pktid_t list \<Rightarrow> error + (cache_pktid_t list \<times> bool)" where
  "check_pktid_already_seen tref s p cache =
     err_bind (cache_loop tref s p 0 cache cache_scan_init)
       (\<lambda>(cache', sc).
          if \<not> src_found sc then
            let idx = (if unused_entry_idx sc < 0 then oldest_entry_idx sc
                       else unused_entry_idx sc)
            in if idx < 0 \<or> idx \<ge> int (length cache') then Inl OutOfBounds
               else Inr (cache'[nat idx := \<lparr> used = True, cache_src = s, mtime = tref,
                                            last_pktid_seen = p \<rparr>], ret sc)
          else Inr (cache', ret sc))"

text \<open>The constructor marks every entry unused; the other fields are not initialised.\<close>

definition cache_is_initial :: "cache_pktid_t list \<Rightarrow> bool" where
  "cache_is_initial cache \<longleftrightarrow> length cache = PKTID_CACHE_SIZE \<and> list_all (\<lambda>c. \<not> used c) cache"

text \<open>
  The invariant of the table (the comment before \<^verbatim>\<open>assert(!ret)\<close>: one entry per source):
  the entries in use have distinct sources.  The tables that can be reached are the
  ones the constructor leaves and the ones a call that returns leaves.
\<close>

definition cache_inv :: "cache_pktid_t list \<Rightarrow> bool" where
  "cache_inv cache \<longleftrightarrow> distinct (map cache_src (filter used cache))"

inductive cache_reachable :: "cache_pktid_t list \<Rightarrow> bool" where
  initial: "cache_is_initial cache \<Longrightarrow> cache_reachable cache"
| observe: "cache_reachable cache \<Longrightarrow> check_pktid_already_seen tref s p cache = Inr (cache', r)
     \<Longrightarrow> cache_reachable cache'"

text \<open>
  The frames of a list of (time, source, packet id) observed one after the other, with
  the answers of the cache.
\<close>

fun observe_all ::
  "(mtime_t \<times> address_t \<times> pktid_t) list \<Rightarrow> cache_pktid_t list
     \<Rightarrow> error + (cache_pktid_t list \<times> bool list)" where
  "observe_all [] cache = Inr (cache, [])"
| "observe_all ((tref, s, p) # xs) cache =
     err_bind (check_pktid_already_seen tref s p cache)
       (\<lambda>(cache', r). err_bind (observe_all xs cache')
                         (\<lambda>(cache'', rs). Inr (cache'', r # rs)))"

definition empty_cache :: "cache_pktid_t list" where
  "empty_cache = replicate PKTID_CACHE_SIZE
     \<lparr> used = False, cache_src = 0, mtime = 0, last_pktid_seen = 0 \<rparr>"

text \<open>Ten sources, all seen at time 5 with packet id 1: the table is full.\<close>

definition full_cache :: "cache_pktid_t list" where
  "full_cache = map (\<lambda>s. \<lparr> used = True, cache_src = s, mtime = 5, last_pktid_seen = 1 \<rparr>)
     [1, 2, 3, 4, 5, 6, 7, 8, 9, 10]"

text \<open>
  How the loop may change an entry: an entry in use afterwards was in use before, with
  the same source.
\<close>

definition entry_rel :: "cache_pktid_t \<Rightarrow> cache_pktid_t \<Rightarrow> bool" where
  "entry_rel c c' \<longleftrightarrow> (used c' \<longrightarrow> used c \<and> cache_src c' = cache_src c)"

section \<open>Headers, packets and \<^verbatim>\<open>PktKeeper\<close>\<close>

record Header =
  dst :: address_t
  src :: address_t
  flags :: byte
  pktid :: pktid_t
  len :: byte

definition sizeof_Header :: byte where
  "sizeof_Header = 6"

definition FLAG_NONE :: byte where "FLAG_NONE = 0"
definition FLAG_SIN :: byte where "FLAG_SIN = 1"
definition FLAG_ACK :: byte where "FLAG_ACK = 2"

definition to_flags :: "byte \<Rightarrow> byte \<Rightarrow> byte" where
  "to_flags seq opt = push_bit 4 (seq AND 0x0F) OR (opt AND 0x0F)"

text \<open>\<^verbatim>\<open>from_flags(flags, &seq, &opt)\<close> returns the pair \<open>(seq, opt)\<close>.\<close>

definition from_flags :: "byte \<Rightarrow> byte \<times> byte" where
  "from_flags fl = (drop_bit 4 fl, fl AND 0x0F)"

text \<open>
  A \<^verbatim>\<open>Packet*\<close> points to a header followed by the payload bytes; \<open>None\<close> is the null
  pointer.  \<^verbatim>\<open>malloc\<close> for a task's packet is taken to succeed, as the code does (it
  never tests the result).
\<close>

record Packet =
  header :: Header
  data :: "byte list"

record PktKeeper =
  pkt :: "Packet option"

definition get_header_ptr :: "PktKeeper \<Rightarrow> Header option" where
  "get_header_ptr pk = (case pkt pk of None \<Rightarrow> None | Some q \<Rightarrow> Some (header q))"

definition get_flags :: "PktKeeper \<Rightarrow> byte" where
  "get_flags pk = (case pkt pk of None \<Rightarrow> 0xFF | Some q \<Rightarrow> flags (header q))"

definition set_flags :: "byte \<Rightarrow> PktKeeper \<Rightarrow> PktKeeper" where
  "set_flags arg_flags pk =
     (case pkt pk of None \<Rightarrow> pk
      | Some q \<Rightarrow> pk\<lparr>pkt := Some (q\<lparr>header := (header q)\<lparr>flags := arg_flags\<rparr>\<rparr>)\<rparr>)"

text \<open>The sum is computed in a \<^verbatim>\<open>byte\<close>: it wraps modulo 256.\<close>

definition get_pkt_len :: "PktKeeper \<Rightarrow> byte" where
  "get_pkt_len pk = (case pkt pk of None \<Rightarrow> 0 | Some q \<Rightarrow> sizeof_Header + len (header q))"

definition get_data_len :: "PktKeeper \<Rightarrow> byte" where
  "get_data_len pk = (case pkt pk of None \<Rightarrow> 0xFF | Some q \<Rightarrow> len (header q))"

definition release_data :: "PktKeeper \<Rightarrow> PktKeeper" where
  "release_data pk = pk\<lparr>pkt := None\<rparr>"

text \<open>
  \<^verbatim>\<open>copy_packet\<close> copies \<^verbatim>\<open>get_pkt_len()\<close> bytes of the other packet.  When that length
  wrapped below the size of a header the copy is not a packet (every later read of its
  header leaves the block), and \<^verbatim>\<open>memcpy\<close> from a null pointer is undefined: both are
  errors of the model.
\<close>

definition copy_packet :: "PktKeeper \<Rightarrow> PktKeeper \<Rightarrow> error + PktKeeper" where
  "copy_packet pk pktkeeper =
     (if pkt pk \<noteq> None then Inl AssertFailed
      else case pkt pktkeeper of
        None \<Rightarrow> Inl NullDeref
      | Some q \<Rightarrow>
          if get_pkt_len pktkeeper < sizeof_Header then Inl OutOfBounds
          else Inr (pk\<lparr>pkt := Some \<lparr> header = header q,
                                      data = take (unat (len (header q))) (data q) \<rparr>\<rparr>))"

definition check_rcvd_pkt_is_ok :: "PktKeeper \<Rightarrow> byte \<Rightarrow> byte \<Rightarrow> bool" where
  "check_rcvd_pkt_is_ok pk max_payload_len nb_bytes =
     (case pkt pk of
        None \<Rightarrow> False
      | Some q \<Rightarrow>
          if len (header q) > max_payload_len then False
          else get_pkt_len pk = nb_bytes)"

text \<open>
  \<^verbatim>\<open>prepare_for_sending(link, header, data)\<close>; \<open>payload = None\<close> is \<^verbatim>\<open>data == nullptr\<close>,
  and the caller's buffer is taken to hold at least \<^verbatim>\<open>header->len\<close> bytes.
\<close>

definition prepare_for_sending ::
  "PktKeeper \<Rightarrow> byte \<Rightarrow> Header \<Rightarrow> byte list option \<Rightarrow> error + PktKeeper" where
  "prepare_for_sending pk max_payload_len h payload =
     (if pkt pk \<noteq> None then Inl AssertFailed
      else if \<not> ((len h = 0 \<and> payload = None) \<or> (len h \<ge> 1 \<and> payload \<noteq> None))
      then Inl AssertFailed
      else
        let h' = (if len h > max_payload_len then h\<lparr>len := max_payload_len\<rparr> else h)
        in Inr (pk\<lparr>pkt := Some \<lparr> header = h',
                                  data = (case payload of None \<Rightarrow> []
                                          | Some d \<Rightarrow> take (unat (len h')) d) \<rparr>\<rparr>))"

definition reduce_packet_to_its_header :: "PktKeeper \<Rightarrow> error + PktKeeper" where
  "reduce_packet_to_its_header pk =
     (case pkt pk of
        None \<Rightarrow> Inl AssertFailed
      | Some q \<Rightarrow> Inr (pk\<lparr>pkt := Some \<lparr> header = (header q)\<lparr>len := 0\<rparr>, data = [] \<rparr>\<rparr>))"

text \<open>
  \<^verbatim>\<open>copy_data(buf, buf_len, rec_len)\<close>: the bytes written to the caller's buffer (their
  number is \<^verbatim>\<open>*rec_len\<close>), or \<open>None\<close> when nothing is written.
\<close>

definition copy_data :: "PktKeeper \<Rightarrow> byte \<Rightarrow> byte list option" where
  "copy_data pk buf_len =
     (case pkt pk of
        None \<Rightarrow> None
      | Some q \<Rightarrow>
          let rec_len = (if len (header q) > buf_len then buf_len else len (header q))
          in Some (take (unat rec_len) (data q)))"

section \<open>Tasks and the engine state\<close>

datatype status_t =
  ST_NOTHING | ST_SEND | ST_SEND_DONE | ST_RECEIVE | ST_RECEIVE_DATA_AVAILABLE
  | ST_RECEIVE_DATA_RETRIEVED | ST_RECEIVE_TIMEDOUT | ST_FINISHED

definition ERR_OK :: byte where "ERR_OK = 0"
definition ERR_DEVICE_NOT_REGISTERED :: byte where "ERR_DEVICE_NOT_REGISTERED = 1"
definition ERR_SEND_FUNC_NOT_REGISTERED :: byte where "ERR_SEND_FUNC_NOT_REGISTERED = 2"
definition ERR_RECEIVE_FUNC_NOT_REGISTERED :: byte where "ERR_RECEIVE_FUNC_NOT_REGISTERED = 3"
definition ERR_SEND_DATA_LEN_ABOVE_LIMIT :: byte where "ERR_SEND_DATA_LEN_ABOVE_LIMIT = 4"
definition ERR_SEND_IO :: byte where "ERR_SEND_IO = 5"
definition ERR_SEND_BAD_ARGUMENTS :: byte where "ERR_SEND_BAD_ARGUMENTS = 6"
definition ERR_SEND_NO_ACK_RCVD :: byte where "ERR_SEND_NO_ACK_RCVD = 7"
definition ERR_TASK_CREATED_OK :: byte where "ERR_TASK_CREATED_OK = 8"
definition ERR_UNABLE_TO_CREATE_TASK :: byte where "ERR_UNABLE_TO_CREATE_TASK = 9"
definition ERR_UNKNOWN_TASKID :: byte where "ERR_UNKNOWN_TASKID = 10"
definition ERR_UNDEFINED :: byte where "ERR_UNDEFINED = 11"
definition ERR_TASK_UNDERWAY :: byte where "ERR_TASK_UNDERWAY = 12"
definition ERR_TIMEOUT :: byte where "ERR_TIMEOUT = 13"

definition DEFAULT_RECEIVE_TIMEOUT_DELAY :: mtime_t where
  "DEFAULT_RECEIVE_TIMEOUT_DELAY = 0"

definition MIN_DEVICE_RESET_DELAY :: mtime_t where
  "MIN_DEVICE_RESET_DELAY = 1000"

text \<open>The three sending schedules (delays since the sending started, not cumulative).\<close>

definition snd_sched :: "mtime_t list" where
  "snd_sched = [0, 200, 550, 900]"

definition snd_sched_len :: byte where
  "snd_sched_len = 4"

definition snd_expack_sched :: "mtime_t list" where
  "snd_expack_sched = [0, 100, 450, 800, 900]"

definition snd_expack_sched_len :: byte where
  "snd_expack_sched_len = 5"

definition snd_repack_sched :: "mtime_t list" where
  "snd_repack_sched = [0]"

definition snd_repack_sched_len :: byte where
  "snd_repack_sched_len = 1"

record Task =
  taskid :: taskid_t
  status :: status_t
  pktkeeper :: PktKeeper
  mtime_ref :: mtime_t
  mtime_wakeup :: mtime_t
  last_retcode :: byte
  nb_send_schedules :: byte
  send_schedule_ptr :: "mtime_t list"
  send_schedule_pos :: byte
  evtsub_wakeup :: bool
  evtsub_pktrcvd :: bool
  is_an_ack :: bool
  need_ack :: bool
  has_received_ack :: bool
  unattended :: bool
  rcv_from_1sender :: bool
  addr_rcv_from_1sender :: address_t
  nbsend :: byte

record RXConfig =
  def_sender :: bool
  def_timeout :: bool
  def_rxcallback :: bool
  sender :: address_t
  timeout :: mtime_t

text \<open>Which callbacks are registered (a function pointer that is not null).\<close>

record RFLinkFunctions =
  deviceInit :: bool
  deviceSend :: bool
  deviceReceive :: bool
  deviceSetOpt :: bool
  setInterrupt :: bool
  resetInterrupt :: bool

text \<open>
  The radio behind the callbacks: the log of the \<^verbatim>\<open>deviceSend\<close> calls (packet pointed to
  and length), the return code of the n-th call, the number of \<^verbatim>\<open>deviceInit(nullptr, true)\<close>
  calls and of \<^verbatim>\<open>sleep_cpu()\<close> calls.
\<close>

record Device =
  tx_log :: "(Packet option \<times> byte) list"
  send_result :: "nat \<Rightarrow> byte"
  nb_reset :: nat
  nb_sleep :: nat

text \<open>
  The state of an \<^verbatim>\<open>RFLink\<close> object, with the file-level flag \<^verbatim>\<open>interrupted\<close> and the
  device.  \<^verbatim>\<open>ENFORCE_MAX_TASK_COUNT_AT_COMPILE_TIME\<close> is defined, so the constructor sets
  \<^verbatim>\<open>pre_allocate\<close> and the tasks are the slots of the array \<^verbatim>\<open>tskhead\<close>, chained in index
  order over the first \<^verbatim>\<open>max_task_count\<close> slots: \<open>tskhead\<close> is the list of these slots and
  a \<^verbatim>\<open>Task*\<close> is an index into it.
\<close>

record RFLink =
  max_payload_len :: byte
  interrupt_is_attached :: bool
  device_addr_has_been_defined :: bool
  auto_sleep :: bool
  device_addr :: address_t
  last_pktid :: pktid_t
  last_taskid :: taskid_t
  receive_data_avail_delay :: mtime_t
  receive_purge_delay :: mtime_t
  send_purge_delay :: mtime_t
  last_device_reset :: mtime_t
  recpkt :: "PktKeeper option"
  task_count :: byte
  max_task_count :: byte
  cache_pktids :: "cache_pktid_t list"
  tskhead :: "Task list"
  funcs :: RFLinkFunctions
  interrupted :: bool
  dev :: Device

text \<open>
  What the outside provides during one call of the API: the value of \<^verbatim>\<open>millis()\<close> (taken
  constant during the call), the content of the scratch buffer after \<^verbatim>\<open>deviceReceive\<close>
  wrote into it together with the number of bytes it returns, and the result of
  allocating the scratch buffer (\<open>None\<close> when \<^verbatim>\<open>malloc\<close> fails).
\<close>

record Env =
  now :: mtime_t
  rx_pkt :: Packet
  rx_nb :: byte
  heap_pkt :: "Packet option"

definition get_pkt_max_size :: "RFLink \<Rightarrow> byte" where
  "get_pkt_max_size e = sizeof_Header + max_payload_len e"

definition initialize_recpkt_if_necessary :: "Env \<Rightarrow> RFLink \<Rightarrow> RFLink" where
  "initialize_recpkt_if_necessary env e =
     (case recpkt e of None \<Rightarrow> e\<lparr>recpkt := Some \<lparr> pkt = heap_pkt env \<rparr>\<rparr> | Some _ \<Rightarrow> e)"

subsection \<open>Task slots\<close>

definition task_initialize :: "Task \<Rightarrow> Task" where
  "task_initialize tsk =
     tsk\<lparr>taskid := 0, status := ST_NOTHING, evtsub_wakeup := False, evtsub_pktrcvd := False,
         last_retcode := ERR_UNDEFINED\<rparr>"

definition task_destroy :: "nat \<Rightarrow> RFLink \<Rightarrow> RFLink" where
  "task_destroy i e =
     (let tsk = tskhead e ! i;
          tsk = tsk\<lparr>pktkeeper := release_data (pktkeeper tsk)\<rparr>;
          tsk = task_initialize tsk
      in e\<lparr>tskhead := (tskhead e)[i := tsk], task_count := task_count e - 1\<rparr>)"

text \<open>The walk \<^verbatim>\<open>while (tsk != nullptr && tsk->status != ST_NOTHING) tsk = tsk->next\<close>.\<close>

fun first_free :: "Task list \<Rightarrow> nat \<Rightarrow> nat option" where
  "first_free [] i = None"
| "first_free (tsk # rest) i = (if status tsk = ST_NOTHING then Some i else first_free rest (i + 1))"

definition task_create :: "Env \<Rightarrow> status_t \<Rightarrow> RFLink \<Rightarrow> nat option \<times> RFLink" where
  "task_create env st e =
     (if task_count e \<ge> max_task_count e then (None, e)
      else case first_free (tskhead e) 0 of
        None \<Rightarrow> (None, e)
      | Some i \<Rightarrow>
          let tsk = task_initialize (tskhead e ! i);
              e = e\<lparr>last_taskid := last_taskid e + 1\<rparr>;
              tsk = tsk\<lparr>taskid := last_taskid e, status := st, mtime_ref := now env,
                        is_an_ack := False, need_ack := False, has_received_ack := False,
                        unattended := False, nbsend := 0\<rparr>
          in (Some i, e\<lparr>tskhead := (tskhead e)[i := tsk], task_count := task_count e + 1\<rparr>))"

text \<open>\<^verbatim>\<open>send_schedule_ptr[pos]\<close>; a read past the array is an error of the model.\<close>

definition sched_at :: "mtime_t list \<Rightarrow> byte \<Rightarrow> error + mtime_t" where
  "sched_at sched pos = (if unat pos < length sched then Inr (sched ! unat pos) else Inl OutOfBounds)"

subsection \<open>Creating sending tasks\<close>

text \<open>
  The functions of the API return the new state, the return code and, where the source
  writes one through \<^verbatim>\<open>taskid_t* taskid\<close>, the task id (\<open>None\<close> when it is not written).
\<close>

definition send_ack_noblock ::
  "Env \<Rightarrow> Header \<Rightarrow> RFLink \<Rightarrow> error + (RFLink \<times> byte \<times> taskid_t option)" where
  "send_ack_noblock env h e =
     (if len h \<noteq> 0 then Inl AssertFailed
      else if \<not> deviceInit (funcs e) then Inr (e, ERR_DEVICE_NOT_REGISTERED, None)
      else if \<not> deviceSend (funcs e) then Inr (e, ERR_SEND_FUNC_NOT_REGISTERED, None)
      else case task_create env ST_SEND e of
        (None, e) \<Rightarrow> Inr (e, ERR_UNABLE_TO_CREATE_TASK, None)
      | (Some i, e) \<Rightarrow>
          let tsk = tskhead e ! i;
              tsk = tsk\<lparr>evtsub_wakeup := True, send_schedule_ptr := snd_repack_sched,
                        nb_send_schedules := snd_repack_sched_len, send_schedule_pos := 0\<rparr>
          in err_bind (sched_at (send_schedule_ptr tsk) (send_schedule_pos tsk))
               (\<lambda>d. let tsk = tsk\<lparr>mtime_wakeup := mtime_ref tsk + d, is_an_ack := True,
                                   unattended := True\<rparr>
                     in err_bind (prepare_for_sending (pktkeeper tsk) (max_payload_len e) h None)
                          (\<lambda>pk. Inr (e\<lparr>tskhead := (tskhead e)[i := tsk\<lparr>pktkeeper := pk\<rparr>]\<rparr>,
                                      ERR_TASK_CREATED_OK, Some (taskid tsk)))))"

definition send_noblock ::
  "Env \<Rightarrow> address_t \<Rightarrow> byte list option \<Rightarrow> byte \<Rightarrow> bool \<Rightarrow> RFLink
     \<Rightarrow> error + (RFLink \<times> byte \<times> taskid_t option)" where
  "send_noblock env dst' payload len' ack e =
     (if \<not> deviceInit (funcs e) then Inr (e, ERR_DEVICE_NOT_REGISTERED, None)
      else if \<not> deviceSend (funcs e) then Inr (e, ERR_SEND_FUNC_NOT_REGISTERED, None)
      else if len' > max_payload_len e then Inr (e, ERR_SEND_DATA_LEN_ABOVE_LIMIT, None)
      else if len' = 0 \<and> payload \<noteq> None then Inr (e, ERR_SEND_BAD_ARGUMENTS, None)
      else case task_create env ST_SEND e of
        (None, e) \<Rightarrow> Inr (e, ERR_UNABLE_TO_CREATE_TASK, None)
      | (Some i, e) \<Rightarrow>
          let tsk = tskhead e ! i;
              tsk = tsk\<lparr>evtsub_wakeup := True,
                        nb_send_schedules := (if ack then snd_expack_sched_len else snd_sched_len),
                        send_schedule_ptr := (if ack then snd_expack_sched else snd_sched),
                        send_schedule_pos := 0\<rparr>
          in err_bind (sched_at (send_schedule_ptr tsk) (send_schedule_pos tsk))
               (\<lambda>d. let tsk = tsk\<lparr>mtime_wakeup := mtime_ref tsk + d\<rparr>;
                         tsk = (if ack then tsk\<lparr>need_ack := True, evtsub_pktrcvd := True\<rparr>
                                else tsk);
                         e = e\<lparr>last_pktid := last_pktid e + 1\<rparr>;
                         h = \<lparr> dst = dst', src = device_addr e,
                               flags = to_flags 0 (if ack then FLAG_SIN else FLAG_NONE),
                               pktid = last_pktid e, len = len' \<rparr>
                     in err_bind (prepare_for_sending (pktkeeper tsk) (max_payload_len e) h payload)
                          (\<lambda>pk. Inr (e\<lparr>tskhead := (tskhead e)[i := tsk\<lparr>pktkeeper := pk\<rparr>]\<rparr>,
                                      ERR_TASK_CREATED_OK, Some (taskid tsk)))))"

definition send_ack :: "Env \<Rightarrow> nat \<Rightarrow> RFLink \<Rightarrow> error + RFLink" where
  "send_ack env i e =
     (let tsk = tskhead e ! i;
          (seq, opt) = from_flags (get_flags (pktkeeper tsk))
      in if opt AND FLAG_SIN \<noteq> 0 then
           (case get_header_ptr (pktkeeper tsk) of
              None \<Rightarrow> Inl NullDeref
            | Some h \<Rightarrow>
                let ack_h = \<lparr> dst = src h, src = device_addr e, flags = to_flags seq FLAG_ACK,
                              pktid = pktid h, len = 0 \<rparr>
                in err_bind (send_ack_noblock env ack_h e) (\<lambda>(e, r, tid). Inr e))
         else Inr e)"

subsection \<open>The two task events\<close>

text \<open>
  \<^verbatim>\<open>tev_received(tsk, pk, pktid_already_seen, pkt_consumed)\<close> returns the new state, the
  status it returns and the final value of \<^verbatim>\<open>*pkt_consumed\<close>.
\<close>

definition tev_received ::
  "Env \<Rightarrow> nat \<Rightarrow> PktKeeper \<Rightarrow> bool \<Rightarrow> bool \<Rightarrow> RFLink \<Rightarrow> error + (RFLink \<times> status_t \<times> bool)" where
  "tev_received env i pk pktid_already_seen pkt_consumed e =
     (if pkt_consumed then Inl AssertFailed
      else case get_header_ptr pk of
        None \<Rightarrow> Inl NullDeref
      | Some hbackup \<Rightarrow>
          let tsk = tskhead e ! i;
              ret = status tsk;
              (seq, opt) = from_flags (get_flags pk)
          in if opt AND FLAG_ACK \<noteq> 0 then
               (if status tsk = ST_SEND \<or> status tsk = ST_SEND_DONE then
                  (if need_ack tsk \<and> \<not> has_received_ack tsk then
                     (case get_header_ptr (pktkeeper tsk) of
                        None \<Rightarrow> Inl NullDeref
                      | Some th \<Rightarrow>
                          if pktid th = pktid hbackup then
                            let tsk = tsk\<lparr>has_received_ack := True\<rparr>;
                                tsk = (if status tsk = ST_SEND
                                       then tsk\<lparr>mtime_wakeup := now env + send_purge_delay e\<rparr>
                                       else tsk);
                                ret = (if status tsk = ST_SEND then ST_SEND_DONE else ret)
                            in err_bind (reduce_packet_to_its_header (pktkeeper tsk))
                                 (\<lambda>pk'. Inr (e\<lparr>tskhead := (tskhead e)[i := tsk\<lparr>pktkeeper := pk'\<rparr>]\<rparr>,
                                              ret, True))
                          else Inr (e, ret, False))
                   else Inr (e, ret, False))
                else Inr (e, ret, False))
             else if status tsk = ST_RECEIVE \<and> \<not> pktid_already_seen then
               err_bind (copy_packet (pktkeeper tsk) pk)
                 (\<lambda>pk'. let tsk = tsk\<lparr>pktkeeper := pk', last_retcode := ERR_OK,
                                       evtsub_wakeup := True, mtime_ref := now env\<rparr>;
                             tsk = tsk\<lparr>mtime_wakeup := mtime_ref tsk + receive_data_avail_delay e\<rparr>
                         in Inr (e\<lparr>tskhead := (tskhead e)[i := tsk]\<rparr>,
                                 ST_RECEIVE_DATA_AVAILABLE, True))
             else if status tsk = ST_RECEIVE_DATA_AVAILABLE
                       \<or> status tsk = ST_RECEIVE_DATA_RETRIEVED then
               (case get_header_ptr (pktkeeper tsk) of
                  None \<Rightarrow> Inl NullDeref
                | Some th \<Rightarrow>
                    if pktid th = pktid hbackup \<and> src th = src hbackup then
                      (if status tsk = ST_RECEIVE_DATA_RETRIEVED
                       then err_bind (send_ack env i e) (\<lambda>e. Inr (e, ret, True))
                       else Inr (e, ret, True))
                    else Inr (e, ret, False))
             else Inr (e, ret, False))"

definition data_retrieved_post :: "nat \<Rightarrow> RFLink \<Rightarrow> error + RFLink" where
  "data_retrieved_post i e =
     (let tsk = tskhead e ! i
      in err_bind (reduce_packet_to_its_header (pktkeeper tsk))
           (\<lambda>pk. Inr (e\<lparr>tskhead := (tskhead e)
                          [i := tsk\<lparr>pktkeeper := pk, evtsub_wakeup := True,
                                    mtime_wakeup := mtime_ref tsk + receive_purge_delay e\<rparr>]\<rparr>)))"

text \<open>
  The sending part of \<^verbatim>\<open>tev_wakeup\<close>: one call of \<^verbatim>\<open>deviceSend\<close>, then the sequence
  number of the flags is incremented unless the task sends an ACK.
\<close>

definition transmit :: "nat \<Rightarrow> RFLink \<Rightarrow> error + RFLink" where
  "transmit i e =
     (if \<not> deviceSend (funcs e) then Inl NullDeref
      else
        let tsk = tskhead e ! i;
            tsk = tsk\<lparr>nbsend := nbsend tsk + 1\<rparr>;
            r = send_result (dev e) (length (tx_log (dev e)));
            d = (dev e)\<lparr>tx_log := tx_log (dev e)
                   @ [(pkt (pktkeeper tsk), get_pkt_len (pktkeeper tsk))]\<rparr>;
            tsk = tsk\<lparr>last_retcode := r\<rparr>;
            (seq, opts) = from_flags (get_flags (pktkeeper tsk));
            seq = (if \<not> is_an_ack tsk then seq + 1 else seq);
            tsk = tsk\<lparr>pktkeeper := set_flags (to_flags seq (get_flags (pktkeeper tsk)))
                                     (pktkeeper tsk)\<rparr>
        in Inr (e\<lparr>tskhead := (tskhead e)[i := tsk], dev := d\<rparr>))"

text \<open>
  The end of the \<open>ST_SEND\<close> branch of \<^verbatim>\<open>tev_wakeup\<close>, from \<^verbatim>\<open>tsk->send_schedule_pos++\<close>
  on: the cursor advances and the next wake-up is the reference time plus the next
  entry of the schedule, or the task is done.
\<close>

definition schedule_next :: "Env \<Rightarrow> nat \<Rightarrow> RFLink \<Rightarrow> error + (RFLink \<times> status_t)" where
  "schedule_next env i e =
     (let tsk = tskhead e ! i;
          tsk = tsk\<lparr>send_schedule_pos := send_schedule_pos tsk + 1\<rparr>
      in if send_schedule_pos tsk < nb_send_schedules tsk then
           err_bind (sched_at (send_schedule_ptr tsk) (send_schedule_pos tsk))
             (\<lambda>d. Inr (e\<lparr>tskhead := (tskhead e)
                           [i := tsk\<lparr>mtime_wakeup := mtime_ref tsk + d\<rparr>]\<rparr>,
                        status tsk))
         else
           Inr (e\<lparr>tskhead := (tskhead e)
                    [i := tsk\<lparr>mtime_wakeup :=
                                (if unattended tsk then now env
                                 else now env + send_purge_delay e)\<rparr>]\<rparr>,
                ST_SEND_DONE))"

text \<open>
  In \<^verbatim>\<open>send_schedule_pos < nb_send_schedules - 1\<close> the bytes are promoted to \<^verbatim>\<open>int\<close>.
\<close>

definition tev_wakeup :: "Env \<Rightarrow> nat \<Rightarrow> RFLink \<Rightarrow> error + (RFLink \<times> status_t)" where
  "tev_wakeup env i e =
     (let tsk = tskhead e ! i
      in if status tsk = ST_SEND then
           err_bind
             (if \<not> need_ack tsk \<or> uint (send_schedule_pos tsk) < uint (nb_send_schedules tsk) - 1
              then transmit i e else Inr e)
             (schedule_next env i)
         else if status tsk = ST_SEND_DONE then Inr (e, ST_FINISHED)
         else if status tsk = ST_RECEIVE_DATA_RETRIEVED \<or> status tsk = ST_RECEIVE_TIMEDOUT
         then Inr (e, ST_FINISHED)
         else if status tsk = ST_RECEIVE_DATA_AVAILABLE then
           err_bind (data_retrieved_post i e) (\<lambda>e. Inr (e, ST_RECEIVE_TIMEDOUT))
         else if status tsk = ST_RECEIVE then
           Inr (e\<lparr>tskhead := (tskhead e)
                    [i := tsk\<lparr>evtsub_wakeup := True,
                              mtime_wakeup := mtime_ref tsk + DEFAULT_RECEIVE_TIMEOUT_DELAY\<rparr>]\<rparr>,
                ST_RECEIVE_TIMEDOUT)
         else Inl AssertFailed)"

subsection \<open>The event pump: \<^verbatim>\<open>RFLink::do_events\<close>\<close>

definition interrupts_on :: "RFLink \<Rightarrow> error + RFLink" where
  "interrupts_on e =
     (if \<not> interrupt_is_attached e then
        (if setInterrupt (funcs e) then Inr (e\<lparr>interrupt_is_attached := True\<rparr>)
         else Inl NullDeref)
      else Inr e)"

definition interrupts_off :: "RFLink \<Rightarrow> error + RFLink" where
  "interrupts_off e =
     (if interrupt_is_attached e then
        (if resetInterrupt (funcs e) then Inr (e\<lparr>interrupt_is_attached := False\<rparr>)
         else Inl NullDeref)
      else Inr e)"

text \<open>
  The call \<^verbatim>\<open>(*funcs.deviceReceive)(recpkt->notrecommended_get_pkt_ptr(), get_pkt_max_size())\<close>
  with the driver of the repository, \<^verbatim>\<open>cc1101_receive\<close>: when the radio has no byte the
  driver returns 0 and writes nothing; otherwise it copies the frame to the pointer it was
  given, without testing it, and returns the number of bytes.  \<open>rx_nb env\<close> is the number
  returned and \<open>rx_pkt env\<close> the content of the buffer after the copy.  The scratch packet is
  null when its \<^verbatim>\<open>malloc\<close> failed: the copy to a null pointer is an error of the model, as is
  the call through a null \<^verbatim>\<open>recpkt\<close>.
\<close>

definition call_deviceReceive :: "Env \<Rightarrow> RFLink \<Rightarrow> error + (RFLink \<times> byte)" where
  "call_deviceReceive env e =
     (case recpkt e of
        None \<Rightarrow> Inl NullDeref
      | Some pk \<Rightarrow>
          if rx_nb env = 0 then Inr (e, 0)
          else (case pkt pk of
                  None \<Rightarrow> Inl NullDeref
                | Some _ \<Rightarrow> Inr (e\<lparr>recpkt := Some (pk\<lparr>pkt := Some (rx_pkt env)\<rparr>)\<rparr>, rx_nb env)))"

text \<open>
  The block \<^verbatim>\<open>if (i_want_to_receive) { ... }\<close>: the scratch buffer is created if there is
  none, the frame is read and checked; the result is the state and \<^verbatim>\<open>got_a_pkt\<close>.
\<close>

definition receive_frame :: "Env \<Rightarrow> RFLink \<Rightarrow> error + (RFLink \<times> bool)" where
  "receive_frame env e =
     (let e = initialize_recpkt_if_necessary env e
      in err_bind (call_deviceReceive env e)
           (\<lambda>(e, nb_bytes_rcvd).
              case recpkt e of
                None \<Rightarrow> Inl NullDeref
              | Some pk \<Rightarrow> Inr (e, check_rcvd_pkt_is_ok pk (max_payload_len e) nb_bytes_rcvd)))"

text \<open>The block \<^verbatim>\<open>if (interrupted) { ... }\<close>: it returns the state and \<^verbatim>\<open>got_a_pkt\<close>.\<close>

definition drain :: "Env \<Rightarrow> bool \<Rightarrow> RFLink \<Rightarrow> error + (RFLink \<times> bool)" where
  "drain env i_want_to_receive e =
     err_bind (interrupts_off e)
       (\<lambda>e. err_bind (if i_want_to_receive then receive_frame env e else Inr (e, False))
          (\<lambda>(e, got_a_pkt).
             err_bind (interrupts_on (e\<lparr>interrupted := False\<rparr>)) (\<lambda>e. Inr (e, got_a_pkt))))"

text \<open>The block \<^verbatim>\<open>if (got_a_pkt) { ... check_pktid_already_seen ... }\<close>.\<close>

definition consult_cache :: "Env \<Rightarrow> RFLink \<Rightarrow> error + (RFLink \<times> bool)" where
  "consult_cache env e =
     (case recpkt e of
        None \<Rightarrow> Inl NullDeref
      | Some pk \<Rightarrow>
          (case get_header_ptr pk of
             None \<Rightarrow> Inl NullDeref
           | Some h \<Rightarrow>
               err_bind (check_pktid_already_seen (now env) (src h) (pktid h) (cache_pktids e))
                 (\<lambda>(cache, seen). Inr (e\<lparr>cache_pktids := cache\<rparr>, seen))))"

text \<open>
  The body of the loop over the tasks, for the task at index \<open>i\<close>, in its three
  steps.  First the frame, if there is one and the task subscribed to frames: the result
  is the state, \<^verbatim>\<open>new_status\<close> and \<^verbatim>\<open>got_a_pkt\<close>.
\<close>

definition deliver_frame ::
  "Env \<Rightarrow> bool \<Rightarrow> nat \<Rightarrow> RFLink \<Rightarrow> bool \<Rightarrow> error + (RFLink \<times> status_t \<times> bool)" where
  "deliver_frame env pktid_already_seen i e got_a_pkt =
     (let tsk = tskhead e ! i
      in if evtsub_pktrcvd tsk \<and> got_a_pkt then
           (case recpkt e of
              None \<Rightarrow> Inl NullDeref
            | Some pk \<Rightarrow>
                err_bind (tev_received env i pk pktid_already_seen False e)
                  (\<lambda>(e, new_status, pkt_consumed).
                     Inr (e, new_status, if pkt_consumed then False else got_a_pkt)))
         else Inr (e, status tsk, got_a_pkt))"

text \<open>
  Then the timer, if the task subscribed to it, its status did not change and its
  wake-up time has come (the difference is cast to \<^verbatim>\<open>long int\<close>).
\<close>

definition deliver_timer :: "Env \<Rightarrow> nat \<Rightarrow> RFLink \<Rightarrow> status_t \<Rightarrow> error + (RFLink \<times> status_t)" where
  "deliver_timer env i e new_status =
     (let tsk = tskhead e ! i
      in if evtsub_wakeup tsk \<and> new_status = status tsk
              \<and> sint (now env - mtime_wakeup tsk) \<ge> 0
         then tev_wakeup env i e else Inr (e, new_status))"

text \<open>
  Last the assertion on the timer subscription, and the task is destroyed or takes its
  new status; the result is the state and \<^verbatim>\<open>device_needs_reset\<close>.
\<close>

definition commit_status :: "nat \<Rightarrow> RFLink \<Rightarrow> status_t \<Rightarrow> bool \<Rightarrow> error + (RFLink \<times> bool)" where
  "commit_status i e new_status device_needs_reset =
     (let tsk = tskhead e ! i
      in if new_status \<noteq> ST_RECEIVE \<and> new_status \<noteq> ST_NOTHING
              \<and> new_status \<noteq> ST_FINISHED \<and> \<not> evtsub_wakeup tsk
         then Inl AssertFailed
         else if new_status = ST_FINISHED then
           Inr (task_destroy i e,
                if status tsk = ST_SEND_DONE \<and> need_ack tsk \<and> \<not> has_received_ack tsk
                then True else device_needs_reset)
         else
           Inr (e\<lparr>tskhead := (tskhead e)[i := tsk\<lparr>status := new_status\<rparr>]\<rparr>,
                device_needs_reset))"

text \<open>The loop carries the state, \<^verbatim>\<open>got_a_pkt\<close> and \<^verbatim>\<open>device_needs_reset\<close>.\<close>

definition task_body ::
  "Env \<Rightarrow> bool \<Rightarrow> nat \<Rightarrow> RFLink \<times> bool \<times> bool \<Rightarrow> error + (RFLink \<times> bool \<times> bool)" where
  "task_body env pktid_already_seen i st =
     (case st of (e, got_a_pkt, device_needs_reset) \<Rightarrow>
        err_bind (deliver_frame env pktid_already_seen i e got_a_pkt)
          (\<lambda>(e, new_status, got_a_pkt).
             err_bind (deliver_timer env i e new_status)
               (\<lambda>(e, new_status).
                  err_bind (commit_status i e new_status device_needs_reset)
                    (\<lambda>(e, device_needs_reset). Inr (e, got_a_pkt, device_needs_reset)))))"

fun task_loop ::
  "Env \<Rightarrow> bool \<Rightarrow> nat list \<Rightarrow> RFLink \<times> bool \<times> bool \<Rightarrow> error + (RFLink \<times> bool \<times> bool)" where
  "task_loop env pktid_already_seen [] st = Inr st"
| "task_loop env pktid_already_seen (i # rest) st =
     err_bind (task_body env pktid_already_seen i st) (task_loop env pktid_already_seen rest)"

definition is_eligible_for_sleep :: "RFLink \<Rightarrow> bool" where
  "is_eligible_for_sleep e \<longleftrightarrow>
     length (filter evtsub_pktrcvd (tskhead e)) = 1
     \<and> length (filter evtsub_wakeup (tskhead e)) = 0
     \<and> length (filter (\<lambda>tsk. \<not> evtsub_wakeup tsk \<and> status tsk \<noteq> ST_NOTHING) (tskhead e)) = 1"

text \<open>
  After the loop: the device is reset if a task that needed an ACK ended without it and
  the last reset is at least \<open>MIN_DEVICE_RESET_DELAY\<close> old; then the CPU sleeps if the
  engine is only waiting for a frame and \<^verbatim>\<open>auto_sleep\<close> is set (the device is
  initialised again just before).
\<close>

definition reset_device :: "Env \<Rightarrow> bool \<Rightarrow> RFLink \<Rightarrow> RFLink" where
  "reset_device env device_needs_reset e =
     (if device_needs_reset \<and> now env - last_device_reset e \<ge> MIN_DEVICE_RESET_DELAY
      then e\<lparr>last_device_reset := now env, dev := (dev e)\<lparr>nb_reset := nb_reset (dev e) + 1\<rparr>\<rparr>
      else e)"

definition sleep_if_idle :: "RFLink \<Rightarrow> RFLink" where
  "sleep_if_idle e =
     (if is_eligible_for_sleep e \<and> auto_sleep e
      then e\<lparr>dev := (dev e)\<lparr>nb_reset := nb_reset (dev e) + 1, nb_sleep := nb_sleep (dev e) + 1\<rparr>\<rparr>
      else e)"

definition do_events :: "Env \<Rightarrow> RFLink \<Rightarrow> error + RFLink" where
  "do_events env e =
     (if \<not> deviceInit (funcs e) then Inr e
      else
        let i_want_to_receive = (list_ex evtsub_pktrcvd (tskhead e) \<and> deviceReceive (funcs e))
        in err_bind (if i_want_to_receive then interrupts_on e else Inr e)
          (\<lambda>e. err_bind (if interrupted e then drain env i_want_to_receive e else Inr (e, False))
          (\<lambda>(e, got_a_pkt).
             err_bind (if got_a_pkt then consult_cache env e else Inr (e, False))
          (\<lambda>(e, pktid_already_seen).
             err_bind (task_loop env pktid_already_seen [0..<length (tskhead e)]
                         (e, got_a_pkt, False))
          (\<lambda>(e, got_a_pkt, device_needs_reset).
             Inr (sleep_if_idle (reset_device env device_needs_reset e)))))))"

subsection \<open>The rest of the API\<close>

fun find_task :: "Task list \<Rightarrow> taskid_t \<Rightarrow> nat \<Rightarrow> nat option" where
  "find_task [] tid i = None"
| "find_task (tsk # rest) tid i = (if taskid tsk = tid then Some i else find_task rest tid (i + 1))"

definition get_task_by_taskid :: "taskid_t \<Rightarrow> RFLink \<Rightarrow> nat option" where
  "get_task_by_taskid tid e = find_task (tskhead e) tid 0"

definition task_get_status :: "taskid_t \<Rightarrow> RFLink \<Rightarrow> status_t" where
  "task_get_status tid e =
     (case get_task_by_taskid tid e of None \<Rightarrow> ST_NOTHING | Some i \<Rightarrow> status (tskhead e ! i))"

text \<open>
  \<^verbatim>\<open>send_get_final_status(taskid, nbsend)\<close> returns the state, the return code and the value
  written to \<^verbatim>\<open>*nbsend\<close> (\<open>None\<close> when the function returns before).
\<close>

definition send_get_final_status :: "Env \<Rightarrow> taskid_t \<Rightarrow> RFLink \<Rightarrow> RFLink \<times> byte \<times> byte option" where
  "send_get_final_status env tid e =
     (case get_task_by_taskid tid e of
        None \<Rightarrow> (e, ERR_UNKNOWN_TASKID, None)
      | Some i \<Rightarrow>
          let tsk = tskhead e ! i
          in if status tsk \<noteq> ST_SEND_DONE then (e, ERR_TASK_UNDERWAY, None)
             else
               let r = (if need_ack tsk \<and> has_received_ack tsk then ERR_OK
                        else if need_ack tsk then ERR_SEND_NO_ACK_RCVD
                        else last_retcode tsk)
               in (e\<lparr>tskhead := (tskhead e)
                       [i := tsk\<lparr>evtsub_wakeup := True, mtime_wakeup := now env\<rparr>]\<rparr>,
                   r, Some (nbsend tsk)))"

definition receive_noblock ::
  "Env \<Rightarrow> RXConfig option \<Rightarrow> RFLink \<Rightarrow> RFLink \<times> byte \<times> taskid_t option" where
  "receive_noblock env cfg e =
     (if \<not> deviceInit (funcs e) then (e, ERR_DEVICE_NOT_REGISTERED, None)
      else if \<not> deviceReceive (funcs e) then (e, ERR_RECEIVE_FUNC_NOT_REGISTERED, None)
      else case task_create env ST_RECEIVE e of
        (None, e) \<Rightarrow> (e, ERR_UNABLE_TO_CREATE_TASK, None)
      | (Some i, e) \<Rightarrow>
          let tsk = tskhead e ! i;
              tsk = tsk\<lparr>evtsub_pktrcvd := True\<rparr>;
              tsk = (case cfg of
                       None \<Rightarrow> tsk
                     | Some c \<Rightarrow>
                         if def_timeout c
                         then tsk\<lparr>evtsub_wakeup := True, mtime_wakeup := mtime_ref tsk + timeout c\<rparr>
                         else tsk)
          in (e\<lparr>tskhead := (tskhead e)[i := tsk]\<rparr>, ERR_TASK_CREATED_OK, Some (taskid tsk)))"

text \<open>
  \<^verbatim>\<open>data_retrieve(tsk, buf, buf_len, rec_len, sender)\<close>: \<open>tsk = None\<close> is the null pointer;
  the result holds the state, the status returned, the bytes copied to \<^verbatim>\<open>buf\<close> and the
  address written to \<^verbatim>\<open>*sender\<close> (\<open>None\<close> where nothing is written).
\<close>

definition data_retrieve ::
  "Env \<Rightarrow> nat option \<Rightarrow> byte \<Rightarrow> bool \<Rightarrow> RFLink
     \<Rightarrow> error + (RFLink \<times> status_t \<times> byte list option \<times> address_t option)" where
  "data_retrieve env tsk' buf_len want_sender e =
     (case tsk' of
        None \<Rightarrow> Inr (e, ST_NOTHING, None, None)
      | Some i \<Rightarrow>
          let tsk = tskhead e ! i
          in if status tsk \<noteq> ST_RECEIVE_DATA_AVAILABLE then Inr (e, status tsk, None, None)
             else
               let buf = copy_data (pktkeeper tsk) buf_len
               in err_bind
                    (if want_sender then
                       (case get_header_ptr (pktkeeper tsk) of
                          None \<Rightarrow> Inl NullDeref | Some h \<Rightarrow> Inr (Some (src h)))
                     else Inr None)
                    (\<lambda>sender'.
                       err_bind (data_retrieved_post i e)
                         (\<lambda>e. let tsk = tskhead e ! i;
                                   e = e\<lparr>tskhead := (tskhead e)
                                          [i := tsk\<lparr>status := ST_RECEIVE_DATA_RETRIEVED\<rparr>]\<rparr>
                               in err_bind (send_ack env i e)
                                    (\<lambda>e. Inr (e, status (tskhead e ! i), buf, sender')))))"

subsection \<open>The blocking calls\<close>

text \<open>
  The blocking calls spin on \<^verbatim>\<open>do_events()\<close>.  Every call into the engine takes the next
  element of a list of \<open>Env\<close>; the result is \<open>None\<close> when the list runs out before the
  call returns (the loop is still spinning).
\<close>

fun send_wait :: "Env list \<Rightarrow> taskid_t \<Rightarrow> RFLink \<Rightarrow> (error + (RFLink \<times> Env list)) option" where
  "send_wait [] tid e = (if task_get_status tid e = ST_SEND then None else Some (Inr (e, [])))"
| "send_wait (env # rest) tid e =
     (if task_get_status tid e = ST_SEND then
        (case do_events env e of Inl err \<Rightarrow> Some (Inl err) | Inr e \<Rightarrow> send_wait rest tid e)
      else Some (Inr (e, env # rest)))"

definition send ::
  "Env list \<Rightarrow> address_t \<Rightarrow> byte list option \<Rightarrow> byte \<Rightarrow> bool \<Rightarrow> RFLink
     \<Rightarrow> (error + (RFLink \<times> byte \<times> byte option)) option" where
  "send envs dst' payload len' ack e =
     (case envs of
        [] \<Rightarrow> None
      | env # envs \<Rightarrow>
          let payload = (if len' = 0 then None else payload)
          in (case send_noblock env dst' payload len' ack e of
               Inl err \<Rightarrow> Some (Inl err)
             | Inr (e, r, tid') \<Rightarrow>
                 if r \<noteq> ERR_TASK_CREATED_OK then Some (Inr (e, r, None))
                 else (case tid' of
                   None \<Rightarrow> Some (Inl NullDeref)
                 | Some tid \<Rightarrow>
                     (case send_wait envs tid e of
                        None \<Rightarrow> None
                      | Some (Inl err) \<Rightarrow> Some (Inl err)
                      | Some (Inr (e, [])) \<Rightarrow> None
                      | Some (Inr (e, env # envs)) \<Rightarrow>
                          Some (Inr (send_get_final_status env tid e))))))"

fun receive_wait :: "Env list \<Rightarrow> taskid_t \<Rightarrow> RFLink \<Rightarrow> (error + (RFLink \<times> Env list)) option" where
  "receive_wait [] tid e = (if task_get_status tid e = ST_RECEIVE then None else Some (Inr (e, [])))"
| "receive_wait (env # rest) tid e =
     (if task_get_status tid e = ST_RECEIVE then
        (case do_events env e of Inl err \<Rightarrow> Some (Inl err) | Inr e \<Rightarrow> receive_wait rest tid e)
      else Some (Inr (e, env # rest)))"

text \<open>
  The end of \<^verbatim>\<open>receive\<close>, from \<^verbatim>\<open>Task* tsk = get_task_by_taskid(taskid)\<close> on: the payload
  is retrieved, the pump runs once more and the status returned by \<^verbatim>\<open>data_retrieve\<close> is
  mapped to the return code.
\<close>

definition receive_finish ::
  "Env list \<Rightarrow> taskid_t \<Rightarrow> byte \<Rightarrow> bool \<Rightarrow> RFLink
     \<Rightarrow> (error + (RFLink \<times> byte \<times> byte list option \<times> address_t option)) option" where
  "receive_finish envs tid buf_len want_sender e =
     (case envs of
        env1 # env2 # _ \<Rightarrow>
          Some (err_bind (data_retrieve env1 (get_task_by_taskid tid e) buf_len want_sender e)
            (\<lambda>(e, r, buf, sender').
               err_bind (do_events env2 e)
                 (\<lambda>e. if r = ST_RECEIVE_DATA_AVAILABLE \<or> r = ST_RECEIVE then Inl AssertFailed
                       else if r = ST_NOTHING then Inr (e, ERR_TIMEOUT, buf, sender')
                       else if r = ST_RECEIVE_DATA_RETRIEVED then Inr (e, ERR_OK, buf, sender')
                       else if r = ST_RECEIVE_TIMEDOUT then Inr (e, ERR_TIMEOUT, buf, sender')
                       else Inl AssertFailed)))
      | _ \<Rightarrow> None)"

definition receive ::
  "Env list \<Rightarrow> byte \<Rightarrow> bool \<Rightarrow> RXConfig option \<Rightarrow> RFLink
     \<Rightarrow> (error + (RFLink \<times> byte \<times> byte list option \<times> address_t option)) option" where
  "receive envs buf_len want_sender cfg e =
     (case envs of
        env0 # env1 # envs \<Rightarrow>
          (case receive_noblock env0 cfg e of
             (e, r, tid') \<Rightarrow>
               (case do_events env1 e of
                  Inl err \<Rightarrow> Some (Inl err)
                | Inr e \<Rightarrow>
                    if r \<noteq> ERR_TASK_CREATED_OK then Some (Inr (e, r, None, None))
                    else (case tid' of
                      None \<Rightarrow> Some (Inl NullDeref)
                    | Some tid \<Rightarrow>
                        (case receive_wait envs tid e of
                           None \<Rightarrow> None
                         | Some (Inl err) \<Rightarrow> Some (Inl err)
                         | Some (Inr (e, envs)) \<Rightarrow>
                             receive_finish envs tid buf_len want_sender e))))
      | _ \<Rightarrow> None)"

subsection \<open>Construction and registration\<close>

text \<open>
  The examples declare the engine as \<^verbatim>\<open>static RFLink rf;\<close>: the members that the
  constructors leave alone are zero.  The array has \<^verbatim>\<open>DEFAULT_MAX_TASK_COUNT\<close> slots and
  the constructor initialises \<^verbatim>\<open>max_task_count\<close> of them, so a larger \<^verbatim>\<open>maxtask\<close> leaves
  the array.
\<close>

definition DEFAULT_MAX_TASK_COUNT :: byte where
  "DEFAULT_MAX_TASK_COUNT = 15"

definition Task_zero :: Task where
  "Task_zero = \<lparr> taskid = 0, status = ST_NOTHING, pktkeeper = \<lparr> pkt = None \<rparr>, mtime_ref = 0,
     mtime_wakeup = 0, last_retcode = 0, nb_send_schedules = 0, send_schedule_ptr = [],
     send_schedule_pos = 0, evtsub_wakeup = False, evtsub_pktrcvd = False, is_an_ack = False,
     need_ack = False, has_received_ack = False, unattended = False, rcv_from_1sender = False,
     addr_rcv_from_1sender = 0, nbsend = 0 \<rparr>"

definition RFLink_new :: "byte \<Rightarrow> Device \<Rightarrow> error + RFLink" where
  "RFLink_new maxtask d =
     (if maxtask > DEFAULT_MAX_TASK_COUNT then Inl OutOfBounds
      else Inr \<lparr> max_payload_len = 0, interrupt_is_attached = False,
             device_addr_has_been_defined = False, auto_sleep = False, device_addr = 0,
             last_pktid = 0, last_taskid = 0, receive_data_avail_delay = 900,
             receive_purge_delay = 1000, send_purge_delay = 1000, last_device_reset = 0,
             recpkt = None, task_count = 0, max_task_count = maxtask,
             cache_pktids = empty_cache,
             tskhead = replicate (unat maxtask) (task_initialize Task_zero),
             funcs = \<lparr> deviceInit = False, deviceSend = False, deviceReceive = False,
                       deviceSetOpt = False, setInterrupt = False, resetInterrupt = False \<rparr>,
             interrupted = False, dev = d \<rparr>)"

text \<open>\<^verbatim>\<open>register_funcs\<close>; \<open>max_data_len\<close> is what \<^verbatim>\<open>deviceInit\<close> reports.\<close>

definition register_funcs :: "Env \<Rightarrow> RFLinkFunctions \<Rightarrow> byte \<Rightarrow> RFLink \<Rightarrow> RFLink" where
  "register_funcs env arg_funcs max_data_len e =
     (let e = e\<lparr>funcs := arg_funcs\<rparr>
      in if \<not> deviceInit (funcs e) then e
         else initialize_recpkt_if_necessary env
                (e\<lparr>max_payload_len := max_data_len - sizeof_Header\<rparr>))"

text \<open>\<^verbatim>\<open>set_opt_byte(OPT_ADDRESS, value)\<close>.\<close>

definition set_opt_address :: "address_t \<Rightarrow> RFLink \<Rightarrow> RFLink" where
  "set_opt_address value e =
     (if \<not> deviceSetOpt (funcs e) then e
      else e\<lparr>device_addr_has_been_defined := True, device_addr := value\<rparr>)"

text \<open>The interrupt handler \<^verbatim>\<open>interrupt_func\<close>.\<close>

definition interrupt_func :: "RFLink \<Rightarrow> RFLink" where
  "interrupt_func e = e\<lparr>interrupted := True\<rparr>"

section \<open>The invariant on timer subscriptions\<close>

text \<open>
  The assertion of \<^verbatim>\<open>do_events\<close>: a task whose status is not \<open>ST_RECEIVE\<close>, \<open>ST_NOTHING\<close>
  or \<open>ST_FINISHED\<close> is subscribed to the timer; \<open>pool_inv\<close> says so of every slot.
\<close>

definition task_inv :: "Task \<Rightarrow> bool" where
  "task_inv tsk \<longleftrightarrow>
     (status tsk \<noteq> ST_RECEIVE \<and> status tsk \<noteq> ST_NOTHING \<and> status tsk \<noteq> ST_FINISHED
        \<longrightarrow> evtsub_wakeup tsk)"

definition pool_inv :: "RFLink \<Rightarrow> bool" where
  "pool_inv e \<longleftrightarrow> list_all task_inv (tskhead e)"

section \<open>Frames that fail the validation\<close>

text \<open>
  The validation of a received frame in the words of the specification: the buffer is not
  null, the length of the header is at most the maximal payload, and 6 plus that length
  is the number of bytes received.
\<close>

definition spec_validate :: "Packet option \<Rightarrow> nat \<Rightarrow> nat \<Rightarrow> bool" where
  "spec_validate buffer nb_bytes_received max_payload =
     (case buffer of
        None \<Rightarrow> False
      | Some q \<Rightarrow> unat (len (header q)) \<le> max_payload
                  \<and> 6 + unat (len (header q)) = nb_bytes_received)"

text \<open>
  The scratch packet of the engine when \<^verbatim>\<open>deviceReceive\<close> is called (it is allocated first
  if the engine has none yet), and after the call.  The call returns when the radio has no
  byte or the scratch packet is not null.
\<close>

definition scratch_packet :: "Env \<Rightarrow> RFLink \<Rightarrow> PktKeeper" where
  "scratch_packet env e = (case recpkt e of None \<Rightarrow> \<lparr> pkt = heap_pkt env \<rparr> | Some pk \<Rightarrow> pk)"

definition scratch_ready :: "Env \<Rightarrow> RFLink \<Rightarrow> bool" where
  "scratch_ready env e \<longleftrightarrow> rx_nb env = 0 \<or> pkt (scratch_packet env e) \<noteq> None"

definition received_scratch :: "Env \<Rightarrow> RFLink \<Rightarrow> PktKeeper" where
  "received_scratch env e =
     (if rx_nb env = 0 then scratch_packet env e
      else (scratch_packet env e)\<lparr>pkt := Some (rx_pkt env)\<rparr>)"

text \<open>
  \<open>reframe x c e\<close> is \<open>e\<close> with another scratch packet and another duplicate cache; the
  timer path of a tick reads and writes neither of them.
\<close>

definition reframe :: "PktKeeper option \<Rightarrow> cache_pktid_t list \<Rightarrow> RFLink \<Rightarrow> RFLink" where
  "reframe x c e = e\<lparr>recpkt := x, cache_pktids := c\<rparr>"

definition reframe3 ::
  "PktKeeper option \<Rightarrow> cache_pktid_t list \<Rightarrow> RFLink \<times> bool \<times> bool \<Rightarrow> RFLink \<times> bool \<times> bool" where
  "reframe3 x c st = (case st of (e, got, rst) \<Rightarrow> (reframe x c e, got, rst))"

text \<open>
  A task on which the timer path cannot fail an assertion: it satisfies the invariant on
  timer subscriptions, it is not finished, a free slot has no timer, a sending task has a
  schedule of the length that it announces and a position inside it, and a task with data
  available holds a packet.  \<open>timer_due\<close> is the test of the pump on the timer of a task.
\<close>

definition timer_ready :: "Task \<Rightarrow> bool" where
  "timer_ready tsk \<longleftrightarrow>
     task_inv tsk \<and> status tsk \<noteq> ST_FINISHED
     \<and> (status tsk = ST_NOTHING \<longrightarrow> \<not> evtsub_wakeup tsk)
     \<and> (status tsk = ST_SEND \<longrightarrow>
           unat (nb_send_schedules tsk) = length (send_schedule_ptr tsk)
           \<and> send_schedule_pos tsk < nb_send_schedules tsk)
     \<and> (status tsk = ST_RECEIVE_DATA_AVAILABLE \<longrightarrow> pkt (pktkeeper tsk) \<noteq> None)"

definition timer_due :: "Env \<Rightarrow> Task \<Rightarrow> bool" where
  "timer_due env tsk \<longleftrightarrow> evtsub_wakeup tsk \<and> sint (now env - mtime_wakeup tsk) \<ge> 0"

section \<open>Sending tasks and their schedules\<close>

text \<open>
  A task in \<open>ST_SEND\<close> as \<^verbatim>\<open>send_noblock\<close> and \<^verbatim>\<open>send_ack_noblock\<close> create it and the timer
  leaves it: it is subscribed to the timer, it has the schedule of its kind (a sending that
  expects an ACK, one that does not, the sending of an ACK), its cursor is inside the
  schedule, and its wake-up time is its reference time plus the entry under the cursor.
  A task is quiet in a tick when the timer path cannot fail on it and its timer is not due.
\<close>

definition sending_task :: "Task \<Rightarrow> bool" where
  "sending_task tsk \<longleftrightarrow>
     status tsk = ST_SEND \<and> evtsub_wakeup tsk
     \<and> ((need_ack tsk \<and> \<not> is_an_ack tsk \<and> send_schedule_ptr tsk = snd_expack_sched
            \<and> nb_send_schedules tsk = snd_expack_sched_len)
        \<or> (\<not> need_ack tsk \<and> \<not> is_an_ack tsk \<and> send_schedule_ptr tsk = snd_sched
            \<and> nb_send_schedules tsk = snd_sched_len)
        \<or> (\<not> need_ack tsk \<and> is_an_ack tsk \<and> send_schedule_ptr tsk = snd_repack_sched
            \<and> nb_send_schedules tsk = snd_repack_sched_len))
     \<and> send_schedule_pos tsk < nb_send_schedules tsk
     \<and> mtime_wakeup tsk
         = mtime_ref tsk + send_schedule_ptr tsk ! unat (send_schedule_pos tsk)"

definition quiet_task :: "Env \<Rightarrow> Task \<Rightarrow> bool" where
  "quiet_task env tsk \<longleftrightarrow> timer_ready tsk \<and> \<not> timer_due env tsk"

section \<open>Concrete engines for the examples\<close>

text \<open>
  A board whose driver registers every callback, reports frames of at most 61 bytes and
  whose \<^verbatim>\<open>deviceSend\<close> always returns 0; \<open>boot a\<close> is the engine after construction,
  registration and \<^verbatim>\<open>set_opt_byte(OPT_ADDRESS, a)\<close>.
\<close>

definition all_registered :: RFLinkFunctions where
  "all_registered = \<lparr> deviceInit = True, deviceSend = True, deviceReceive = True,
     deviceSetOpt = True, setInterrupt = True, resetInterrupt = True \<rparr>"

definition quiet_device :: Device where
  "quiet_device = \<lparr> tx_log = [], send_result = (\<lambda>n. 0), nb_reset = 0, nb_sleep = 0 \<rparr>"

definition no_frame :: Packet where
  "no_frame = \<lparr> header = \<lparr> dst = 0, src = 0, flags = 0, pktid = 0, len = 0 \<rparr>, data = [] \<rparr>"

definition env_at :: "mtime_t \<Rightarrow> Env" where
  "env_at t = \<lparr> now = t, rx_pkt = no_frame, rx_nb = 0, heap_pkt = Some no_frame \<rparr>"

definition boot :: "address_t \<Rightarrow> error + RFLink" where
  "boot a = err_bind (RFLink_new 15 quiet_device)
     (\<lambda>e. Inr (set_opt_address a (register_funcs (env_at 0) all_registered 61 e)))"

definition ack_frame :: "address_t \<Rightarrow> address_t \<Rightarrow> pktid_t \<Rightarrow> PktKeeper" where
  "ack_frame s d p =
     \<lparr> pkt = Some \<lparr> header = \<lparr> dst = d, src = s, flags = FLAG_ACK, pktid = p, len = 0 \<rparr>,
                    data = [] \<rparr> \<rparr>"

text \<open>
  Device \<open>0x0B\<close> after \<^verbatim>\<open>send_noblock(&taskid, 0x5E, "hi", 3, true)\<close> at time 10: the task
  is in slot 0 and its packet has packet id 1.
\<close>

definition sender_state :: RFLink where
  "sender_state =
     fst (projr (err_bind (boot 0x0B) (send_noblock (env_at 10) 0x5E (Some [104, 105, 0]) 3 True)))"

definition outgoing_header :: "nat \<Rightarrow> RFLink \<Rightarrow> Header option" where
  "outgoing_header i e = get_header_ptr (pktkeeper (tskhead e ! i))"

definition idle_state :: RFLink where
  "idle_state = projr (boot 0x0B)"

text \<open>
  A tick at time \<open>t\<close> during which the radio hands over the frame \<open>h\<close>, \<open>d\<close>
  (\<^verbatim>\<open>deviceReceive\<close> returns \<open>n\<close>), and a run of ticks.
\<close>

definition frame_env :: "mtime_t \<Rightarrow> Header \<Rightarrow> byte list \<Rightarrow> byte \<Rightarrow> Env" where
  "frame_env t h d n = \<lparr> now = t, rx_pkt = \<lparr> header = h, data = d \<rparr>, rx_nb = n,
     heap_pkt = Some no_frame \<rparr>"

fun run_events :: "Env list \<Rightarrow> RFLink \<Rightarrow> error + RFLink" where
  "run_events [] e = Inr e"
| "run_events (env # envs) e = err_bind (do_events env e) (run_events envs)"

text \<open>
  The sender above after its first transmission at time 10 and an ACK from \<open>0x5E\<close> at
  time 20, and the same sender when no ACK comes until its schedule is over.
\<close>

definition acked_state :: RFLink where
  "acked_state =
     projr (err_bind (do_events (env_at 10) sender_state)
       (\<lambda>e. do_events
               (frame_env 20 \<lparr> dst = 0x0B, src = 0x5E, flags = FLAG_ACK, pktid = 1, len = 0 \<rparr> [] 6)
               (interrupt_func e)))"

definition unacked_state :: RFLink where
  "unacked_state =
     projr (run_events [env_at 10, env_at 110, env_at 460, env_at 810, env_at 910] sender_state)"

text \<open>
  Device \<open>0x5E\<close> after \<^verbatim>\<open>receive_noblock(&taskid, nullptr)\<close> at time 5, and a tick at
  time 20 in which the radio hands over 8 bytes whose header announces a payload of 3.
\<close>

definition receiver_state :: RFLink where
  "receiver_state = fst (receive_noblock (env_at 5) None (projr (boot 0x5E)))"

definition truncated_env :: Env where
  "truncated_env =
     frame_env 20 \<lparr> dst = 0x5E, src = 0x0B, flags = 1, pktid = 7, len = 3 \<rparr> [104, 105] 8"

text \<open>
  The same device when \<^verbatim>\<open>malloc\<close> returned null for the scratch packet at registration,
  and a tick at time 20 in which the radio hands over a well-formed frame of 9 bytes.
\<close>

definition starved_receiver :: RFLink where
  "starved_receiver =
     fst (receive_noblock (env_at 5) None
            (set_opt_address 0x5E
               (register_funcs ((env_at 0)\<lparr>heap_pkt := None\<rparr>) all_registered 61
                  (projr (RFLink_new 15 quiet_device)))))"

definition intact_env :: Env where
  "intact_env =
     frame_env 20 \<lparr> dst = 0x5E, src = 0x0B, flags = 1, pktid = 7, len = 3 \<rparr> [104, 105, 0] 9"

text \<open>
  The receiver above when the frame \<open>data_frame\<close> (from \<open>0x0B\<close>, packet id 7, three bytes,
  \<^verbatim>\<open>FLAG_SIN\<close> set) arrives at time 20 and again at time 30, before the application calls
  \<^verbatim>\<open>data_retrieve\<close> at time 40; \<open>duplicate_frame\<close> is the scratch packet that holds the frame.
\<close>

definition data_frame :: Header where
  "data_frame = \<lparr> dst = 0x5E, src = 0x0B, flags = 1, pktid = 7, len = 3 \<rparr>"

definition arrival :: "mtime_t \<Rightarrow> Env" where
  "arrival t = frame_env t data_frame [104, 105, 0] 9"

definition arrived_once :: RFLink where
  "arrived_once = projr (do_events (arrival 20) (interrupt_func receiver_state))"

definition arrived_twice :: RFLink where
  "arrived_twice = projr (do_events (arrival 30) (interrupt_func arrived_once))"

definition retrieved_after_two :: RFLink where
  "retrieved_after_two = fst (projr (data_retrieve (env_at 40) (Some 0) 16 True arrived_twice))"

definition duplicate_frame :: PktKeeper where
  "duplicate_frame = \<lparr> pkt = Some (rx_pkt (arrival 30)) \<rparr>"

text \<open>
  The sender above after the ticks at its first four schedule entries (times 10, 110, 460
  and 810): its cursor is on the last entry.  The same sending without ACK, and that
  sender after the ticks at times 10, 210 and 560.
\<close>

definition listening_state :: RFLink where
  "listening_state =
     projr (run_events [env_at 10, env_at 110, env_at 460, env_at 810] sender_state)"

definition plain_sender_state :: RFLink where
  "plain_sender_state =
     fst (projr (err_bind (boot 0x0B) (send_noblock (env_at 10) 0x5E (Some [104, 105, 0]) 3 False)))"

definition plain_last_state :: RFLink where
  "plain_last_state =
     projr (run_events [env_at 10, env_at 210, env_at 560] plain_sender_state)"

section \<open>Properties\<close>

subsection \<open>An ACK frame offered to a sending task\<close>

lemma opt_ack_iff: "snd (from_flags fl) AND FLAG_ACK \<noteq> 0 \<longleftrightarrow> fl AND FLAG_ACK \<noteq> 0"
proof -
  have "(fl AND 0x0F) AND 2 = fl AND (2::byte)"
    by (simp add: and.assoc)
  then show ?thesis by (simp add: from_flags_def FLAG_ACK_def)
qed

lemma sender_state_facts:
  "0 < length (tskhead sender_state)"
  "status (tskhead sender_state ! 0) = ST_SEND"
  "need_ack (tskhead sender_state ! 0)"
  "\<not> has_received_ack (tskhead sender_state ! 0)"
  "pkt (pktkeeper (tskhead sender_state ! 0))
     = Some \<lparr> header = \<lparr> dst = 0x5E, src = 0x0B, flags = 1, pktid = 1, len = 3 \<rparr>,
              data = [104, 105, 0] \<rparr>"
  by code_simp+

text \<open>
  Claim C1, as the code has it: for a task in \<open>ST_SEND\<close> that needs an ACK and has not
  received one, a frame with the ACK flag is matched on the packet id alone.  When the
  packet id of the frame equals the one of the task's packet, the task is marked as
  having received its ACK, its wake-up is set to now + \<open>send_purge_delay\<close>, its packet is
  reduced to the header, the frame is consumed and the status returned is
  \<open>ST_SEND_DONE\<close>; otherwise nothing changes and the frame is not consumed.  The source
  address of the frame is not looked at.
\<close>

theorem tev_received_ack_by_pktid:
  assumes i: "i < length (tskhead e)"
    and t: "tsk = tskhead e ! i"
    and st: "status tsk = ST_SEND"
    and na: "need_ack tsk" "\<not> has_received_ack tsk"
    and q: "pkt (pktkeeper tsk) = Some q"
    and f: "pkt pk = Some f"
    and ack: "flags (header f) AND FLAG_ACK \<noteq> 0"
  shows "tev_received env i pk seen False e =
     (if pktid (header q) = pktid (header f) then
        Inr (e\<lparr>tskhead := (tskhead e)
                 [i := tsk\<lparr>has_received_ack := True,
                           mtime_wakeup := now env + send_purge_delay e,
                           pktkeeper := (pktkeeper tsk)
                             \<lparr>pkt := Some \<lparr> header = (header q)\<lparr>len := 0\<rparr>, data = [] \<rparr>\<rparr>\<rparr>]\<rparr>,
             ST_SEND_DONE, True)
      else Inr (e, ST_SEND, False))"
proof -
  have o: "snd (from_flags (get_flags pk)) AND FLAG_ACK \<noteq> 0"
    using ack f by (simp add: opt_ack_iff get_flags_def)
  have hp: "get_header_ptr pk = Some (header f)"
    using f by (simp add: get_header_ptr_def)
  have ht: "get_header_ptr (pktkeeper tsk) = Some (header q)"
    using q by (simp add: get_header_ptr_def)
  have red: "\<And>t'. pktkeeper t' = pktkeeper tsk \<Longrightarrow> reduce_packet_to_its_header (pktkeeper t')
     = Inr ((pktkeeper tsk)\<lparr>pkt := Some \<lparr> header = (header q)\<lparr>len := 0\<rparr>, data = [] \<rparr>\<rparr>)"
    using q by (simp add: reduce_packet_to_its_header_def)
  show ?thesis
    using o hp ht st na t [symmetric]
    by (simp add: tev_received_def Let_def split_beta red err_bind_def)
qed

theorem tev_received_ack_by_pktid_witness:
  "status (tskhead sender_state ! 0) = ST_SEND
   \<and> map_sum id snd (tev_received (env_at 20) 0 (ack_frame 0x5E 0x0B 1) False False sender_state)
       = Inr (ST_SEND_DONE, True)
   \<and> tev_received (env_at 20) 0 (ack_frame 0x5E 0x0B 2) False False sender_state
       = Inr (sender_state, ST_SEND, False)"
proof -
  have f: "pkt (ack_frame 0x5E 0x0B p) =
      Some \<lparr> header = \<lparr> dst = 0x0B, src = 0x5E, flags = FLAG_ACK, pktid = p, len = 0 \<rparr>,
             data = [] \<rparr>" for p
    by (simp add: ack_frame_def)
  have a: "flags (header \<lparr> header = \<lparr> dst = 0x0B, src = 0x5E, flags = FLAG_ACK, pktid = p, len = 0 \<rparr>,
             data = [] \<rparr>) AND FLAG_ACK \<noteq> 0" for p :: pktid_t
    by (simp add: FLAG_ACK_def)
  note r = tev_received_ack_by_pktid [OF sender_state_facts(1) refl sender_state_facts(2-5) f a]
  show ?thesis
    using r [of "env_at 20" 1 False] r [of "env_at 20" 2 False] sender_state_facts(2)
    by simp
qed

text \<open>
  Claim C1 as stated asks for the source address of the frame to match as well.  The
  task below sends packet 1 from \<open>0x0B\<close> to \<open>0x5E\<close>; a frame with the ACK flag and
  packet id 1 whose source is \<open>0x77\<close> is consumed and closes the task.
\<close>

theorem tev_received_ack_counterexample:
  "outgoing_header 0 sender_state
     = Some \<lparr> dst = 0x5E, src = 0x0B, flags = 1, pktid = 1, len = 3 \<rparr>
   \<and> status (tskhead sender_state ! 0) = ST_SEND
   \<and> need_ack (tskhead sender_state ! 0) \<and> \<not> has_received_ack (tskhead sender_state ! 0)
   \<and> get_header_ptr (ack_frame 0x77 0x0B 1)
       = Some \<lparr> dst = 0x0B, src = 0x77, flags = 2, pktid = 1, len = 0 \<rparr>
   \<and> map_sum id snd (tev_received (env_at 20) 0 (ack_frame 0x77 0x0B 1) False False sender_state)
       = Inr (ST_SEND_DONE, True)"
  by code_simp

subsection \<open>Rejected calls of \<^verbatim>\<open>send_noblock\<close>\<close>

lemma task_create_None: "task_create env st e = (None, e') \<Longrightarrow> e' = e"
  by (auto simp: task_create_def Let_def split: if_splits option.splits)

lemma idle_facts:
  "deviceInit (funcs idle_state)" "deviceSend (funcs idle_state)"
  "max_payload_len idle_state = 55"
  by code_simp+

text \<open>
  Claim C4, as the code has it: with the driver registered, \<^verbatim>\<open>send_noblock\<close> returns
  \<open>ERR_SEND_DATA_LEN_ABOVE_LIMIT\<close> when \<open>len\<close> is above the maximal payload length, and
  \<open>ERR_SEND_BAD_ARGUMENTS\<close> when \<open>len\<close> is 0 with a payload pointer that is not null; in
  both cases the state of the engine is unchanged and no task id is written.  The other
  direction (a null payload with \<open>len \<ge> 1\<close>) is not tested by \<^verbatim>\<open>send_noblock\<close>: the call
  either finds no free task, or creates the task and stops on the assertion of
  \<^verbatim>\<open>prepare_for_sending\<close>.
\<close>

theorem send_noblock_rejects:
  assumes r: "deviceInit (funcs e)" "deviceSend (funcs e)"
  shows "(len' > max_payload_len e \<longrightarrow>
            send_noblock env dst' payload len' ack e = Inr (e, ERR_SEND_DATA_LEN_ABOVE_LIMIT, None))
       \<and> (len' = 0 \<and> payload \<noteq> None \<longrightarrow>
            send_noblock env dst' payload len' ack e = Inr (e, ERR_SEND_BAD_ARGUMENTS, None))
       \<and> (len' \<le> max_payload_len e \<and> len' \<noteq> 0 \<and> payload = None \<longrightarrow>
            send_noblock env dst' payload len' ack e = Inl AssertFailed
            \<or> send_noblock env dst' payload len' ack e = Inr (e, ERR_UNABLE_TO_CREATE_TASK, None))"
proof (intro conjI impI)
  assume "len' > max_payload_len e"
  with r show "send_noblock env dst' payload len' ack e = Inr (e, ERR_SEND_DATA_LEN_ABOVE_LIMIT, None)"
    by (simp add: send_noblock_def)
next
  assume a: "len' = 0 \<and> payload \<noteq> None"
  then have "\<not> len' > max_payload_len e" by simp
  with r a show "send_noblock env dst' payload len' ack e = Inr (e, ERR_SEND_BAD_ARGUMENTS, None)"
    by (simp add: send_noblock_def)
next
  assume a: "len' \<le> max_payload_len e \<and> len' \<noteq> 0 \<and> payload = None"
  then have n: "\<not> len' > max_payload_len e" by (simp add: not_less)
  have pf: "prepare_for_sending pk m h None = Inl AssertFailed" if "len h \<noteq> 0" for pk m h
    using that by (simp add: prepare_for_sending_def)
  have sa: "sched_at (if ack then snd_expack_sched else snd_sched) 0 = Inr 0"
    by (simp add: sched_at_def snd_expack_sched_def snd_sched_def)
  show "send_noblock env dst' payload len' ack e = Inl AssertFailed
            \<or> send_noblock env dst' payload len' ack e = Inr (e, ERR_UNABLE_TO_CREATE_TASK, None)"
  proof (cases "task_create env ST_SEND e")
    case (Pair oi e1)
    show ?thesis
    proof (cases oi)
      case None
      with Pair task_create_None [of env ST_SEND e e1] have "e1 = e" by simp
      with Pair None r a n show ?thesis by (simp add: send_noblock_def)
    next
      case (Some i)
      with Pair r a n have "send_noblock env dst' payload len' ack e = Inl AssertFailed"
        by (simp add: send_noblock_def Let_def sa err_bind_def pf)
      then show ?thesis ..
    qed
  qed
qed

theorem send_noblock_rejects_witness:
  "send_noblock (env_at 10) 0x5E (Some [1]) 56 True idle_state = Inr (idle_state, ERR_SEND_DATA_LEN_ABOVE_LIMIT, None)
   \<and> send_noblock (env_at 10) 0x5E (Some [1]) 0 True idle_state = Inr (idle_state, ERR_SEND_BAD_ARGUMENTS, None)"
  using send_noblock_rejects [OF idle_facts(1,2), of 56 "env_at 10" "0x5E" "Some [1]" True]
    send_noblock_rejects [OF idle_facts(1,2), of 0 "env_at 10" "0x5E" "Some [1]" True]
  by (simp add: idle_facts(3))

text \<open>
  Claim C4 as stated has \<open>ERR_SEND_BAD_ARGUMENTS\<close> returned in both directions.  With a
  null payload and \<open>len = 1\<close> the call does not return: the assertion fails.
\<close>

theorem send_noblock_null_payload_counterexample:
  "max_payload_len idle_state = 55
   \<and> map_sum id (fst \<circ> snd) (send_noblock (env_at 10) 0x5E None 1 False idle_state) = Inl AssertFailed"
  by code_simp

subsection \<open>The sending schedules\<close>

lemma tev_wakeup_ST_SEND:
  "status (tskhead e ! i) = ST_SEND \<Longrightarrow>
   tev_wakeup env i e =
     err_bind
       (if \<not> need_ack (tskhead e ! i)
            \<or> uint (send_schedule_pos (tskhead e ! i)) < uint (nb_send_schedules (tskhead e ! i)) - 1
        then transmit i e else Inr e)
       (schedule_next env i)"
  unfolding tev_wakeup_def Let_def by (simp only: simp_thms if_True)

lemma transmit_Inr:
  assumes "deviceSend (funcs e)" "i < length (tskhead e)"
  shows "\<exists>e1. transmit i e = Inr e1
    \<and> length (tskhead e1) = length (tskhead e)
    \<and> tx_log (dev e1) = tx_log (dev e) @ [(pkt (pktkeeper (tskhead e ! i)), get_pkt_len (pktkeeper (tskhead e ! i)))]
    \<and> status (tskhead e1 ! i) = status (tskhead e ! i)
    \<and> send_schedule_pos (tskhead e1 ! i) = send_schedule_pos (tskhead e ! i)
    \<and> nb_send_schedules (tskhead e1 ! i) = nb_send_schedules (tskhead e ! i)
    \<and> send_schedule_ptr (tskhead e1 ! i) = send_schedule_ptr (tskhead e ! i)
    \<and> mtime_ref (tskhead e1 ! i) = mtime_ref (tskhead e ! i)"
  using assms by (simp add: transmit_def Let_def split_beta)


lemma byte_succ_less:
  fixes pos nb :: byte
  assumes "pos < nb"
  shows "unat (pos + 1) = unat pos + 1"
    and "pos + 1 < nb \<longleftrightarrow> unat pos + 1 < unat nb"
    and "uint pos < uint nb - 1 \<longleftrightarrow> unat pos + 1 < unat nb"
proof -
  from assms have l: "unat pos < unat nb" by (simp add: word_less_nat_alt)
  have "unat nb < 256" using unsigned_less [of nb, where ?'a = nat] by simp
  with l have "unat pos + 1 < 256" by simp
  then show u: "unat (pos + 1) = unat pos + 1"
    by (simp add: unat_word_ariths)
  show "pos + 1 < nb \<longleftrightarrow> unat pos + 1 < unat nb"
    by (simp only: word_less_nat_alt u)
  show "uint pos < uint nb - 1 \<longleftrightarrow> unat pos + 1 < unat nb"
    unfolding uint_nat by linarith
qed

lemma wakeup_advance_more:
  fixes tsk1 :: Task
  assumes tk: "tsk1 = tskhead e1 ! i" and nb: "unat (nb_send_schedules tsk1) = length (send_schedule_ptr tsk1)"
    and pos: "send_schedule_pos tsk1 < nb_send_schedules tsk1"
    and more: "unat (send_schedule_pos tsk1) + 1 < length (send_schedule_ptr tsk1)"
  shows
     "schedule_next env i e1
      = Inr (e1\<lparr>tskhead := (tskhead e1)
                 [i := tsk1\<lparr>send_schedule_pos := send_schedule_pos tsk1 + 1,
                        mtime_wakeup := mtime_ref tsk1
                           + send_schedule_ptr tsk1 ! (unat (send_schedule_pos tsk1) + 1)\<rparr>]\<rparr>,
             status tsk1)"
proof -
  note b = byte_succ_less [OF pos]
  from more have lt: "send_schedule_pos tsk1 + 1 < nb_send_schedules tsk1" using b(2) nb by simp
  have sa: "sched_at (send_schedule_ptr tsk1) (send_schedule_pos tsk1 + 1)
      = Inr (send_schedule_ptr tsk1 ! (unat (send_schedule_pos tsk1) + 1))"
    using more b(1) by (simp add: sched_at_def)
  show ?thesis
    using lt unfolding schedule_next_def tk [symmetric] by (simp add: Let_def sa err_bind_def)
qed

lemma wakeup_advance_last:
  fixes tsk1 :: Task
  assumes tk: "tsk1 = tskhead e1 ! i" and nb: "unat (nb_send_schedules tsk1) = length (send_schedule_ptr tsk1)"
    and pos: "send_schedule_pos tsk1 < nb_send_schedules tsk1"
    and last: "\<not> unat (send_schedule_pos tsk1) + 1 < length (send_schedule_ptr tsk1)"
  shows
     "schedule_next env i e1
      = Inr (e1\<lparr>tskhead := (tskhead e1)
                 [i := tsk1\<lparr>send_schedule_pos := send_schedule_pos tsk1 + 1,
                        mtime_wakeup := (if unattended tsk1 then now env
                                         else now env + send_purge_delay e1)\<rparr>]\<rparr>,
             ST_SEND_DONE)"
proof -
  note b = byte_succ_less [OF pos]
  from last have lt: "\<not> send_schedule_pos tsk1 + 1 < nb_send_schedules tsk1" using b(2) nb by simp
  show ?thesis
    using lt unfolding schedule_next_def tk [symmetric] by (simp add: Let_def)
qed


lemma tev_wakeup_send:
  assumes i: "i < length (tskhead e)" and t: "tsk = tskhead e ! i" and st: "status tsk = ST_SEND"
    and ds: "deviceSend (funcs e)"
    and nb: "unat (nb_send_schedules tsk) = length (send_schedule_ptr tsk)"
    and pos: "send_schedule_pos tsk < nb_send_schedules tsk"
  shows "\<exists>e' st'. tev_wakeup env i e = Inr (e', st')
     \<and> length (tskhead e') = length (tskhead e)
     \<and> tx_log (dev e') =
         (if need_ack tsk \<and> unat (send_schedule_pos tsk) + 1 = length (send_schedule_ptr tsk)
          then tx_log (dev e)
          else tx_log (dev e) @ [(pkt (pktkeeper tsk), get_pkt_len (pktkeeper tsk))])
     \<and> (if unat (send_schedule_pos tsk) + 1 < length (send_schedule_ptr tsk)
         then st' = ST_SEND
              \<and> mtime_wakeup (tskhead e' ! i)
                  = mtime_ref tsk + send_schedule_ptr tsk ! (unat (send_schedule_pos tsk) + 1)
         else st' = ST_SEND_DONE)"
proof -
  let ?t = "tskhead e ! i"
  let ?tx = "\<not> need_ack ?t \<or> uint (send_schedule_pos ?t) < uint (nb_send_schedules ?t) - 1"
  let ?log = "if need_ack ?t \<and> unat (send_schedule_pos ?t) + 1 = length (send_schedule_ptr ?t)
          then tx_log (dev e)
          else tx_log (dev e) @ [(pkt (pktkeeper ?t), get_pkt_len (pktkeeper ?t))]"
  note st' = st [unfolded t] and nb' = nb [unfolded t] and pos' = pos [unfolded t]
  note b = byte_succ_less [OF pos']
  from pos' have pl: "unat (send_schedule_pos ?t) < length (send_schedule_ptr ?t)"
    using nb' by (simp add: word_less_nat_alt)
  have txc: "?tx \<longleftrightarrow> \<not> (need_ack ?t \<and> unat (send_schedule_pos ?t) + 1 = length (send_schedule_ptr ?t))"
  proof (cases "need_ack ?t")
    case True
    then show ?thesis using b(3) pl nb' by simp linarith
  next
    case False
    then show ?thesis by simp
  qed
  obtain e1 where e1: "(if ?tx then transmit i e else Inr e) = Inr e1"
    and l1: "length (tskhead e1) = length (tskhead e)"
    and tx1: "tx_log (dev e1) = ?log"
    and s1: "status (tskhead e1 ! i) = ST_SEND"
    and p1: "send_schedule_pos (tskhead e1 ! i) = send_schedule_pos ?t"
    and n1: "nb_send_schedules (tskhead e1 ! i) = nb_send_schedules ?t"
    and q1: "send_schedule_ptr (tskhead e1 ! i) = send_schedule_ptr ?t"
    and r1: "mtime_ref (tskhead e1 ! i) = mtime_ref ?t"
  proof (cases ?tx)
    case True
    from transmit_Inr [OF ds i] obtain e1 where a: "transmit i e = Inr e1"
      "length (tskhead e1) = length (tskhead e)"
      "tx_log (dev e1) = tx_log (dev e) @ [(pkt (pktkeeper ?t), get_pkt_len (pktkeeper ?t))]"
      "status (tskhead e1 ! i) = status ?t"
      "send_schedule_pos (tskhead e1 ! i) = send_schedule_pos ?t"
      "nb_send_schedules (tskhead e1 ! i) = nb_send_schedules ?t"
      "send_schedule_ptr (tskhead e1 ! i) = send_schedule_ptr ?t"
      "mtime_ref (tskhead e1 ! i) = mtime_ref ?t"
      by blast
    from True have c: "\<not> (need_ack ?t \<and> unat (send_schedule_pos ?t) + 1 = length (send_schedule_ptr ?t))"
      using txc by blast
    show thesis
    proof (rule that [of e1])
      show "(if ?tx then transmit i e else Inr e) = Inr e1" using True a(1) by (simp only: if_True)
      show "tx_log (dev e1) = ?log" using c a(3) by simp
      show "status (tskhead e1 ! i) = ST_SEND" using a(4) st' by simp
    qed (fact a)+
  next
    case False
    then have c: "need_ack ?t \<and> unat (send_schedule_pos ?t) + 1 = length (send_schedule_ptr ?t)"
      using txc by blast
    show thesis
    proof (rule that [of e])
      show "(if ?tx then transmit i e else Inr e) = Inr e" using False by (simp only: if_False)
      show "tx_log (dev e) = ?log" using c by simp
    qed (simp_all add: st')
  qed
  have i1: "i < length (tskhead e1)" using i l1 by simp
  note nb1 = nb' [folded n1 q1] and pos1 = pos' [folded n1 p1]
  have w: "tev_wakeup env i e = schedule_next env i e1"
    unfolding tev_wakeup_ST_SEND [OF st'] e1 by (simp add: err_bind_def)
  show ?thesis
  proof (cases "unat (send_schedule_pos (tskhead e1 ! i)) + 1 < length (send_schedule_ptr (tskhead e1 ! i))")
    case True
    note r = w [unfolded wakeup_advance_more [OF refl nb1 pos1 True]]
    show ?thesis
      unfolding t
      apply (rule exI, rule exI, rule conjI, rule r)
      using True i1 by (simp add: l1 tx1 s1 p1 q1 r1)
  next
    case False
    note r = w [unfolded wakeup_advance_last [OF refl nb1 pos1 False]]
    show ?thesis
      unfolding t
      apply (rule exI, rule exI, rule conjI, rule r)
      using False i1 by (simp add: l1 tx1 s1 p1 q1 r1)
  qed
qed

subsection \<open>Looking tasks up by id\<close>

lemma find_task_Some:
  "find_task ts tid k = Some i \<Longrightarrow> k \<le> i \<and> i - k < length ts \<and> taskid (ts ! (i - k)) = tid"
proof (induction ts arbitrary: k)
  case Nil
  then show ?case by simp
next
  case (Cons t ts)
  show ?case
  proof (cases "taskid t = tid")
    case True
    with Cons.prems show ?thesis by simp
  next
    case False
    with Cons.prems have "find_task ts tid (k + 1) = Some i" by simp
    from Cons.IH [OF this] have "k + 1 \<le> i" "i - (k + 1) < length ts" "taskid (ts ! (i - (k + 1))) = tid"
      by simp_all
    moreover from \<open>k + 1 \<le> i\<close> have "i - k = Suc (i - (k + 1))" by simp
    ultimately show ?thesis by simp
  qed
qed

lemma get_task_by_taskid_Some:
  "get_task_by_taskid tid e = Some i \<Longrightarrow> i < length (tskhead e) \<and> taskid (tskhead e ! i) = tid"
  using find_task_Some [of "tskhead e" tid 0 i] by (simp add: get_task_by_taskid_def)

lemma final_facts:
  "get_task_by_taskid 1 acked_state = Some 0"
  "status (tskhead acked_state ! 0) = ST_SEND_DONE"
  "need_ack (tskhead acked_state ! 0)"
  "has_received_ack (tskhead acked_state ! 0)"
  "get_task_by_taskid 1 unacked_state = Some 0"
  "status (tskhead unacked_state ! 0) = ST_SEND_DONE"
  "need_ack (tskhead unacked_state ! 0)"
  "\<not> has_received_ack (tskhead unacked_state ! 0)"
  "length (tx_log (dev unacked_state)) = 4"
  by code_simp+

text \<open>
  Claim C6: for a task in \<open>ST_SEND_DONE\<close>, \<^verbatim>\<open>send_get_final_status\<close> returns \<open>ERR_OK\<close> when
  an ACK was needed and received, \<open>ERR_SEND_NO_ACK_RCVD\<close> when an ACK was needed and not
  received, and the last return code of \<^verbatim>\<open>deviceSend\<close> when no ACK was needed; for a task
  that needed an ACK the result is \<open>ERR_OK\<close> exactly when the ACK was received and
  \<open>ERR_SEND_NO_ACK_RCVD\<close> exactly when it was not.
\<close>

theorem send_get_final_status_done:
  assumes g: "get_task_by_taskid tid e = Some i"
    and t: "tsk = tskhead e ! i"
    and d: "status tsk = ST_SEND_DONE"
  shows "fst (snd (send_get_final_status env tid e)) =
           (if need_ack tsk then (if has_received_ack tsk then ERR_OK else ERR_SEND_NO_ACK_RCVD)
            else last_retcode tsk)
         \<and> (need_ack tsk \<longrightarrow>
              (fst (snd (send_get_final_status env tid e)) = ERR_OK \<longleftrightarrow> has_received_ack tsk)
            \<and> (fst (snd (send_get_final_status env tid e)) = ERR_SEND_NO_ACK_RCVD
                 \<longleftrightarrow> \<not> has_received_ack tsk))"
  using g d t [symmetric]
  by (simp add: send_get_final_status_def Let_def ERR_OK_def ERR_SEND_NO_ACK_RCVD_def)

theorem send_get_final_status_done_witness:
  "fst (snd (send_get_final_status (env_at 30) 1 acked_state)) = ERR_OK
   \<and> fst (snd (send_get_final_status (env_at 920) 1 unacked_state)) = ERR_SEND_NO_ACK_RCVD"
  using send_get_final_status_done [OF final_facts(1) refl final_facts(2), of "env_at 30"]
    send_get_final_status_done [OF final_facts(5) refl final_facts(6), of "env_at 920"]
  by (simp add: final_facts)

lemma idle_tasks:
  "\<forall>tsk \<in> set (tskhead idle_state). taskid tsk = 7 \<longrightarrow> status tsk = ST_NOTHING"
  "\<not> isl (do_events (env_at 6) idle_state)"
  by code_simp+

text \<open>
  Claim C10: for a task id that matches no live task (every slot with this id, if any,
  is in \<open>ST_NOTHING\<close>), \<^verbatim>\<open>task_get_status\<close> returns \<open>ST_NOTHING\<close>, and the end of the
  blocking \<^verbatim>\<open>receive\<close> (retrieval, one more run of the pump, mapping of the status)
  returns \<open>ERR_TIMEOUT\<close> when the pump returns, with nothing delivered.
\<close>

theorem unknown_taskid_nothing:
  assumes "\<forall>tsk \<in> set (tskhead e). taskid tsk = tid \<longrightarrow> status tsk = ST_NOTHING"
  shows "task_get_status tid e = ST_NOTHING
         \<and> receive_finish (env1 # env2 # envs) tid buf_len want_sender e
             = Some (err_bind (do_events env2 e) (\<lambda>e'. Inr (e', ERR_TIMEOUT, None, None)))"
proof -
  have s: "status (tskhead e ! i) = ST_NOTHING" if "get_task_by_taskid tid e = Some i" for i
    using get_task_by_taskid_Some [OF that] assms by (metis nth_mem)
  have 1: "task_get_status tid e = ST_NOTHING"
    by (simp add: task_get_status_def s split: option.split)
  have 2: "data_retrieve env1 (get_task_by_taskid tid e) buf_len want_sender e = Inr (e, ST_NOTHING, None, None)"
    by (cases "get_task_by_taskid tid e") (simp_all add: data_retrieve_def s)
  show ?thesis
    using 1 by (simp add: receive_finish_def 2 err_bind_def split: sum.split)
qed

theorem unknown_taskid_nothing_witness:
  "task_get_status 7 idle_state = ST_NOTHING
   \<and> map_option (map_sum id (fst \<circ> snd))
        (receive_finish [env_at 5, env_at 6] 7 50 True idle_state) = Some (Inr ERR_TIMEOUT)"
proof -
  obtain e' where d: "do_events (env_at 6) idle_state = Inr e'"
    using idle_tasks(2) by (cases "do_events (env_at 6) idle_state") simp_all
  show ?thesis
    using unknown_taskid_nothing [OF idle_tasks(1), of "env_at 5" "env_at 6" "[]" 50 True]
    by (simp add: d err_bind_def)
qed

subsection \<open>The duplicate cache\<close>

lemma cache_body_cases:
  assumes "cache_body tref s p i c sc = Inr (c', sc')"
  obtains
    (unused) "\<not> used c'" "src_found sc' = src_found sc"
             "unused_entry_idx sc' = unused_entry_idx sc \<or> unused_entry_idx sc' = i"
             "oldest_entry_idx sc' = oldest_entry_idx sc"
  | (match) "used c" "used c'" "cache_src c = s" "cache_src c' = s" "src_found sc'"
            "unused_entry_idx sc' = unused_entry_idx sc" "oldest_entry_idx sc' = oldest_entry_idx sc"
  | (other) "used c" "c' = c" "cache_src c \<noteq> s"
            "src_found sc' = src_found sc" "unused_entry_idx sc' = unused_entry_idx sc"
            "oldest_entry_idx sc' = oldest_entry_idx sc \<or> oldest_entry_idx sc' = i"
proof -
  let ?e = "tref - mtime c"
  let ?c1 = "if used c \<and> ?e \<ge> CACHE_PKTID_DISCARD_DELAY then c\<lparr>used := False\<rparr> else c"
  show thesis
  proof (cases "used ?c1")
    case False
    with assms have "c' = ?c1" "sc' = (if unused_entry_idx sc < 0 then sc\<lparr>unused_entry_idx := i\<rparr> else sc)"
      by (simp_all add: cache_body_def Let_def)
    with False show thesis by (intro unused) (simp_all split: if_splits)
  next
    case True
    then have u: "used c" and c1: "?c1 = c" by (simp_all split: if_splits)
    show thesis
    proof (cases "cache_src c = s")
      case eq: True
      from assms True eq c1 u have "used c' \<and> cache_src c' = s \<and> src_found sc' \<and>
            unused_entry_idx sc' = unused_entry_idx sc \<and> oldest_entry_idx sc' = oldest_entry_idx sc"
        by (simp add: cache_body_def Let_def split: if_splits) auto
      with u eq show thesis by (intro match) simp_all
    next
      case ne: False
      from assms True ne c1 u have "c' = c \<and> src_found sc' = src_found sc \<and>
            unused_entry_idx sc' = unused_entry_idx sc \<and>
            (oldest_entry_idx sc' = oldest_entry_idx sc \<or> oldest_entry_idx sc' = i)"
        by (simp add: cache_body_def Let_def split: if_splits) auto
      with u ne show thesis by (intro other) simp_all
    qed
  qed
qed

lemma cache_body_rel:
  assumes "cache_body tref s p i c sc = Inr (c', sc')"
  shows "entry_rel c c'"
    and "src_found sc' \<longleftrightarrow> src_found sc \<or> (used c' \<and> cache_src c' = s)"
    and "unused_entry_idx sc' = unused_entry_idx sc \<or> unused_entry_idx sc' = i"
    and "oldest_entry_idx sc' = oldest_entry_idx sc \<or> oldest_entry_idx sc' = i"
  using assms by (cases rule: cache_body_cases; simp add: entry_rel_def)+

lemma cache_loop_rel:
  "cache_loop tref s p i cs sc = Inr (cs', sc') \<Longrightarrow>
     list_all2 entry_rel cs cs' \<and>
     (src_found sc' \<longleftrightarrow> src_found sc \<or> (\<exists>c \<in> set cs'. used c \<and> cache_src c = s)) \<and>
     (unused_entry_idx sc' = unused_entry_idx sc
        \<or> (i \<le> unused_entry_idx sc' \<and> unused_entry_idx sc' < i + int (length cs))) \<and>
     (oldest_entry_idx sc' = oldest_entry_idx sc
        \<or> (i \<le> oldest_entry_idx sc' \<and> oldest_entry_idx sc' < i + int (length cs)))"
proof (induction cs arbitrary: i sc cs' sc')
  case Nil
  then show ?case by simp
next
  case (Cons c cs)
  from Cons.prems obtain c1 sc1 rest' where
    b: "cache_body tref s p i c sc = Inr (c1, sc1)" and
    l: "cache_loop tref s p (i + 1) cs sc1 = Inr (rest', sc')" and
    e: "cs' = c1 # rest'"
    by (auto simp: err_bind_def split: sum.splits prod.splits)
  note B = cache_body_rel [OF b]
  from Cons.IH [OF l] have L1: "list_all2 entry_rel cs rest'"
    and L2: "src_found sc' \<longleftrightarrow> src_found sc1 \<or> (\<exists>c \<in> set rest'. used c \<and> cache_src c = s)"
    and L3: "unused_entry_idx sc' = unused_entry_idx sc1
        \<or> (i + 1 \<le> unused_entry_idx sc' \<and> unused_entry_idx sc' < i + 1 + int (length cs))"
    and L4: "oldest_entry_idx sc' = oldest_entry_idx sc1
        \<or> (i + 1 \<le> oldest_entry_idx sc' \<and> oldest_entry_idx sc' < i + 1 + int (length cs))"
    by simp_all
  have 1: "list_all2 entry_rel (c # cs) cs'" using B(1) L1 e by simp
  have 2: "src_found sc' \<longleftrightarrow> src_found sc \<or> (\<exists>c \<in> set cs'. used c \<and> cache_src c = s)"
    using B(2) L2 e by auto
  have 3: "unused_entry_idx sc' = unused_entry_idx sc
        \<or> (i \<le> unused_entry_idx sc' \<and> unused_entry_idx sc' < i + int (length (c # cs)))"
    using B(3) L3 by auto
  have 4: "oldest_entry_idx sc' = oldest_entry_idx sc
        \<or> (i \<le> oldest_entry_idx sc' \<and> oldest_entry_idx sc' < i + int (length (c # cs)))"
    using B(4) L4 by auto
  show ?case using 1 2 3 4 by blast
qed

lemma entry_rel_sources:
  "list_all2 entry_rel cs cs' \<Longrightarrow>
     set (map cache_src (filter used cs')) \<subseteq> set (map cache_src (filter used cs))"
  by (induction rule: list_all2_induct) (auto simp: entry_rel_def)

lemma entry_rel_inv:
  "list_all2 entry_rel cs cs' \<Longrightarrow> cache_inv cs \<Longrightarrow> cache_inv cs'"
proof (induction rule: list_all2_induct)
  case Nil
  then show ?case by simp
next
  case (Cons c cs c' cs')
  from Cons.prems have t: "cache_inv cs" by (simp add: cache_inv_def split: if_splits)
  note ih = Cons.IH [OF t]
  show ?case
  proof (cases "used c'")
    case False
    with ih show ?thesis by (simp add: cache_inv_def)
  next
    case True
    with Cons.hyps(1) have u: "used c" and s: "cache_src c' = cache_src c"
      by (simp_all add: entry_rel_def)
    from Cons.prems u have "cache_src c \<notin> set (map cache_src (filter used cs))"
      by (simp add: cache_inv_def)
    with entry_rel_sources [OF Cons.hyps(2)] have "cache_src c \<notin> set (map cache_src (filter used cs'))"
      by blast
    with True s ih show ?thesis by (simp add: cache_inv_def)
  qed
qed

lemma update_sources:
  "set (map cache_src (filter used (cs[k := n])))
     \<subseteq> insert (cache_src n) (set (map cache_src (filter used cs)))"
proof (induction cs arbitrary: k)
  case Nil
  then show ?case by simp
next
  case (Cons c cs)
  show ?case
  proof (cases k)
    case 0
    then show ?thesis by auto
  next
    case (Suc k')
    with Cons.IH [of k'] show ?thesis by auto
  qed
qed

lemma install_inv:
  assumes "cache_inv cs" and "\<forall>c \<in> set cs. used c \<longrightarrow> cache_src c \<noteq> cache_src n"
  shows "cache_inv (cs[k := n])"
  using assms
proof (induction cs arbitrary: k)
  case Nil
  then show ?case by simp
next
  case (Cons c cs)
  from Cons.prems have t: "cache_inv cs" and f: "\<forall>c \<in> set cs. used c \<longrightarrow> cache_src c \<noteq> cache_src n"
    by (simp_all add: cache_inv_def split: if_splits)
  show ?case
  proof (cases k)
    case 0
    have "cache_src n \<notin> set (map cache_src (filter used cs))" using f by auto
    with 0 t show ?thesis by (simp add: cache_inv_def)
  next
    case (Suc k')
    note ih = Cons.IH [OF t f, of k']
    show ?thesis
    proof (cases "used c")
      case False
      with Suc ih show ?thesis by (simp add: cache_inv_def)
    next
      case True
      with Cons.prems have a: "cache_src c \<notin> set (map cache_src (filter used cs))"
        and b: "cache_src c \<noteq> cache_src n"
        by (simp_all add: cache_inv_def)
      with update_sources [of cs k' n] have "cache_src c \<notin> set (map cache_src (filter used (cs[k' := n])))"
        by blast
      with True Suc ih show ?thesis by (simp add: cache_inv_def)
    qed
  qed
qed

lemma check_pktid_already_seen_inv:
  assumes inv: "cache_inv cache" and r: "check_pktid_already_seen tref s p cache = Inr (cache', r)"
  shows "cache_inv cache'"
proof -
  from r obtain cs sc where l: "cache_loop tref s p 0 cache cache_scan_init = Inr (cs, sc)"
    by (auto simp: check_pktid_already_seen_def err_bind_def split: sum.splits)
  note L = cache_loop_rel [OF l]
  from L have rel: "list_all2 entry_rel cache cs" by blast
  note i1 = entry_rel_inv [OF rel inv]
  show ?thesis
  proof (cases "src_found sc")
    case True
    with r l have "cache' = cs" by (simp add: check_pktid_already_seen_def err_bind_def)
    with i1 show ?thesis by simp
  next
    case False
    with L have nf: "\<forall>c \<in> set cs. used c \<longrightarrow> cache_src c \<noteq> s"
      by (auto simp: cache_scan_init_def)
    from r l False obtain k where "cache' = cs[k := \<lparr> used = True, cache_src = s, mtime = tref,
                                            last_pktid_seen = p \<rparr>]"
      by (auto simp: check_pktid_already_seen_def err_bind_def Let_def split: if_splits)
    with install_inv [OF i1, of "\<lparr> used = True, cache_src = s, mtime = tref, last_pktid_seen = p \<rparr>" k] nf
    show ?thesis by simp
  qed
qed

lemma initial_inv: "cache_is_initial cache \<Longrightarrow> cache_inv cache"
proof -
  assume "cache_is_initial cache"
  then have "filter used cache = []"
    by (auto simp: cache_is_initial_def list_all_iff filter_empty_conv)
  then show ?thesis by (simp add: cache_inv_def)
qed

text \<open>
  Claim C8: in every table that can be reached from the constructor by calls of
  \<^verbatim>\<open>check_pktid_already_seen\<close> that return, at most one entry in use has a given source;
  and a call that returns on a table with this property leaves a table with it.  (A call
  that writes out of the array, see C3, is an error of the model and leaves no table.)
\<close>

theorem cache_one_entry_per_source:
  "(cache_reachable cache \<longrightarrow> cache_inv cache)
   \<and> (cache_inv cache \<and> check_pktid_already_seen tref s p cache = Inr (cache', r)
        \<longrightarrow> cache_inv cache')"
proof (intro conjI impI)
  assume "cache_reachable cache"
  then show "cache_inv cache"
    by (induction rule: cache_reachable.induct)
       (simp_all add: initial_inv check_pktid_already_seen_inv)
next
  assume "cache_inv cache \<and> check_pktid_already_seen tref s p cache = Inr (cache', r)"
  then show "cache_inv cache'" using check_pktid_already_seen_inv by blast
qed

lemma observe_all_reachable:
  assumes "cache_reachable cache" "observe_all xs cache = Inr (cache', rs)"
  shows "cache_reachable cache'"
  using assms
proof (induction xs arbitrary: cache cache' rs)
  case Nil
  then show ?case by simp
next
  case (Cons x xs)
  obtain tref s p where x: "x = (tref, s, p)" by (cases x)
  from Cons.prems(2) obtain c1 r where
    1: "check_pktid_already_seen tref s p cache = Inr (c1, r)"
    by (cases "check_pktid_already_seen tref s p cache") (auto simp: x err_bind_def)
  from Cons.prems(2) 1 obtain rs' where 2: "observe_all xs c1 = Inr (cache', rs')"
    by (cases "observe_all xs c1") (auto simp: x err_bind_def)
  from cache_reachable.observe [OF Cons.prems(1) 1] have "cache_reachable c1" .
  from Cons.IH [OF this 2] show ?case .
qed

text \<open>
  The table that ten sources leave is full; there the invariant is kept when an eleventh
  source evicts the oldest entry, when a source of the table comes again, and when it
  comes again after the eviction.
\<close>

lemma full_cache_facts:
  "cache_is_initial empty_cache"
  "observe_all [(5, 1, 1), (5, 2, 1), (5, 3, 1), (5, 4, 1), (5, 5, 1), (5, 6, 1), (5, 7, 1),
                (5, 8, 1), (5, 9, 1), (5, 10, 1)] empty_cache
     = Inr (full_cache, replicate 10 False)"
  "check_pktid_already_seen 6 11 1 full_cache
     = Inr (full_cache[0 := \<lparr> used = True, cache_src = 11, mtime = 6, last_pktid_seen = 1 \<rparr>],
            False)"
  "check_pktid_already_seen 6 3 1 full_cache
     = Inr (full_cache[2 := \<lparr> used = True, cache_src = 3, mtime = 6, last_pktid_seen = 1 \<rparr>],
            True)"
  "check_pktid_already_seen 7 3 2
       (full_cache[0 := \<lparr> used = True, cache_src = 11, mtime = 6, last_pktid_seen = 1 \<rparr>])
     = Inr (full_cache[0 := \<lparr> used = True, cache_src = 11, mtime = 6, last_pktid_seen = 1 \<rparr>,
                       2 := \<lparr> used = True, cache_src = 3, mtime = 7, last_pktid_seen = 2 \<rparr>],
            False)"
  "map cache_src (filter used full_cache) = [1, 2, 3, 4, 5, 6, 7, 8, 9, 10]"
  by code_simp+

theorem cache_one_entry_per_source_witness:
  "cache_reachable full_cache \<and> cache_inv full_cache
   \<and> cache_inv (full_cache[0 := \<lparr> used = True, cache_src = 11, mtime = 6, last_pktid_seen = 1 \<rparr>])
   \<and> cache_inv (full_cache[2 := \<lparr> used = True, cache_src = 3, mtime = 6, last_pktid_seen = 1 \<rparr>])
   \<and> cache_inv (full_cache[0 := \<lparr> used = True, cache_src = 11, mtime = 6, last_pktid_seen = 1 \<rparr>,
                            2 := \<lparr> used = True, cache_src = 3, mtime = 7, last_pktid_seen = 2 \<rparr>])"
proof -
  have r: "cache_reachable full_cache"
    by (rule observe_all_reachable [OF cache_reachable.initial [OF full_cache_facts(1)]
          full_cache_facts(2)])
  have i: "cache_inv full_cache"
    using cache_one_entry_per_source [of full_cache 6 11 1 _ False, THEN conjunct1] r by blast
  have e: "cache_inv (full_cache[0 := \<lparr> used = True, cache_src = 11, mtime = 6,
                                        last_pktid_seen = 1 \<rparr>])"
    using cache_one_entry_per_source [of full_cache 6 11 1 _ False, THEN conjunct2] i
      full_cache_facts(3) by blast
  have u: "cache_inv (full_cache[2 := \<lparr> used = True, cache_src = 3, mtime = 6,
                                        last_pktid_seen = 1 \<rparr>])"
    using cache_one_entry_per_source [of full_cache 6 3 1 _ True, THEN conjunct2] i
      full_cache_facts(4) by blast
  have v: "cache_inv (full_cache[0 := \<lparr> used = True, cache_src = 11, mtime = 6,
                                        last_pktid_seen = 1 \<rparr>,
                                 2 := \<lparr> used = True, cache_src = 3, mtime = 7,
                                        last_pktid_seen = 2 \<rparr>])"
    using cache_one_entry_per_source [of
        "full_cache[0 := \<lparr> used = True, cache_src = 11, mtime = 6, last_pktid_seen = 1 \<rparr>]"
        7 3 2 _ False, THEN conjunct2] e full_cache_facts(5) by blast
  from r i e u v show ?thesis by blast
qed

text \<open>
  Claim C3 at a full table whose ten entries were all written at the current time, for
  a source that is not in the table: no entry has an elapsed time above 0, so
  \<^verbatim>\<open>oldest_entry_idx\<close> is still \<open>-1\<close> and the new pair is written to \<^verbatim>\<open>cache_pktids[-1]\<close>.
  The table is the one that ten sources observed at time 5 leave; when the eleventh frame
  comes one millisecond later the oldest entry (the first) is replaced.
\<close>

theorem full_cache_same_time_out_of_bounds:
  "observe_all [(5, 1, 1), (5, 2, 1), (5, 3, 1), (5, 4, 1), (5, 5, 1), (5, 6, 1), (5, 7, 1),
                (5, 8, 1), (5, 9, 1), (5, 10, 1)] empty_cache
     = Inr (full_cache, replicate 10 False)
   \<and> list_all used full_cache
   \<and> check_pktid_already_seen 5 11 1 full_cache = Inl OutOfBounds
   \<and> check_pktid_already_seen 6 11 1 full_cache
       = Inr (full_cache[0 := \<lparr> used = True, cache_src = 11, mtime = 6, last_pktid_seen = 1 \<rparr>],
              False)"
  by code_simp

subsection \<open>Timer subscriptions\<close>

lemma pool_inv_nth: "pool_inv e \<Longrightarrow> i < length (tskhead e) \<Longrightarrow> task_inv (tskhead e ! i)"
  by (simp add: pool_inv_def list_all_length)

lemma pool_inv_update:
  assumes "pool_inv e" "task_inv t'" "tskhead e' = (tskhead e)[i := t']"
  shows "pool_inv e'"
proof -
  have "set ((tskhead e)[i := t']) \<subseteq> insert t' (set (tskhead e))"
    by (rule set_update_subset_insert)
  with assms show ?thesis by (auto simp: pool_inv_def list_all_iff)
qed

lemma first_free_Some:
  "first_free ts k = Some j \<Longrightarrow> k \<le> j \<and> j - k < length ts \<and> status (ts ! (j - k)) = ST_NOTHING"
proof (induction ts arbitrary: k)
  case Nil
  then show ?case by simp
next
  case (Cons t ts)
  show ?case
  proof (cases "status t = ST_NOTHING")
    case True
    with Cons.prems show ?thesis by simp
  next
    case False
    with Cons.prems have "first_free ts (k + 1) = Some j" by simp
    from Cons.IH [OF this] have "k + 1 \<le> j" "j - (k + 1) < length ts"
      "status (ts ! (j - (k + 1))) = ST_NOTHING"
      by simp_all
    moreover from \<open>k + 1 \<le> j\<close> have "j - k = Suc (j - (k + 1))" by simp
    ultimately show ?thesis by simp
  qed
qed

lemma task_create_Some:
  assumes "task_create env st e = (Some j, e1)"
  shows "j < length (tskhead e)" "status (tskhead e ! j) = ST_NOTHING"
    "length (tskhead e1) = length (tskhead e)"
    "status (tskhead e1 ! j) = st"
    "\<forall>k. k \<noteq> j \<longrightarrow> tskhead e1 ! k = tskhead e ! k"
    "funcs e1 = funcs e" "max_payload_len e1 = max_payload_len e"
proof -
  from assms have ff: "first_free (tskhead e) 0 = Some j"
    by (simp add: task_create_def Let_def split: if_splits option.splits)
  from first_free_Some [OF ff] show j: "j < length (tskhead e)"
    and "status (tskhead e ! j) = ST_NOTHING" by simp_all
  from assms ff have e1: "e1 = e\<lparr>last_taskid := last_taskid e + 1,
      tskhead := (tskhead e)[j := (task_initialize (tskhead e ! j))
         \<lparr>taskid := last_taskid e + 1, status := st, mtime_ref := now env,
                        is_an_ack := False, need_ack := False, has_received_ack := False,
                        unattended := False, nbsend := 0\<rparr>],
      task_count := task_count e + 1\<rparr>"
    by (simp add: task_create_def Let_def split: if_splits)
  show "length (tskhead e1) = length (tskhead e)" by (simp add: e1)
  show "status (tskhead e1 ! j) = st" using j by (simp add: e1)
  show "\<forall>k. k \<noteq> j \<longrightarrow> tskhead e1 ! k = tskhead e ! k" by (simp add: e1)
  show "funcs e1 = funcs e" "max_payload_len e1 = max_payload_len e" by (simp_all add: e1)
qed

lemma err_bind_Inr:
  "err_bind m f = Inr y \<Longrightarrow> \<exists>x. m = Inr x \<and> f x = Inr y"
  by (cases m) (simp_all add: err_bind_def)

lemma err_bind_simps [simp]:
  "err_bind (Inr x) f = f x" "err_bind (Inl err) f = Inl err"
  by (simp_all add: err_bind_def)

lemma sched_at_repack: "sched_at snd_repack_sched 0 = Inr 0"
  by (simp add: sched_at_def snd_repack_sched_def)

lemma send_ack_noblock_created:
  assumes "len h = 0" "deviceInit (funcs e)" "deviceSend (funcs e)"
    and "task_create env ST_SEND e = (Some j, e1)"
  shows "send_ack_noblock env h e =
    (case prepare_for_sending (pktkeeper (tskhead e1 ! j)) (max_payload_len e1) h None of
       Inl err \<Rightarrow> Inl err
     | Inr pk \<Rightarrow>
         Inr (e1\<lparr>tskhead := (tskhead e1)
                [j := (tskhead e1 ! j)\<lparr>evtsub_wakeup := True, send_schedule_ptr := snd_repack_sched,
                        nb_send_schedules := snd_repack_sched_len, send_schedule_pos := 0,
                        mtime_wakeup := mtime_ref (tskhead e1 ! j), is_an_ack := True,
                        unattended := True, pktkeeper := pk\<rparr>]\<rparr>,
              ERR_TASK_CREATED_OK, Some (taskid (tskhead e1 ! j))))"
  using assms
  by (simp add: send_ack_noblock_def Let_def sched_at_repack split: sum.split)

lemma send_ack_noblock_inv:
  assumes inv: "pool_inv e" and r: "send_ack_noblock env h e = Inr (e', rc, tid)"
  shows "pool_inv e'" "length (tskhead e') = length (tskhead e)"
    "\<forall>k. status (tskhead e ! k) \<noteq> ST_NOTHING \<longrightarrow> tskhead e' ! k = tskhead e ! k"
proof -
  have "pool_inv e' \<and> length (tskhead e') = length (tskhead e)
    \<and> (\<forall>k. status (tskhead e ! k) \<noteq> ST_NOTHING \<longrightarrow> tskhead e' ! k = tskhead e ! k)"
  proof (cases "len h \<noteq> 0 \<or> \<not> deviceInit (funcs e) \<or> \<not> deviceSend (funcs e)")
    case True
    with r have "e' = e" by (auto simp: send_ack_noblock_def split: if_splits)
    with inv show ?thesis by simp
  next
    case False
    obtain oj e1 where tc: "task_create env ST_SEND e = (oj, e1)" by (cases "task_create env ST_SEND e")
    show ?thesis
    proof (cases oj)
      case None
      with tc have "e1 = e" by (simp add: task_create_None)
      with r False tc None have "e' = e" by (simp add: send_ack_noblock_def)
      with inv show ?thesis by simp
    next
      case (Some j)
      note C = task_create_Some [OF tc [unfolded Some]]
      from False have F: "len h = 0" "deviceInit (funcs e)" "deviceSend (funcs e)" by simp_all
      note eq = send_ack_noblock_created [OF F tc [unfolded Some]]
      from r obtain pk t' where
        e': "e' = e1\<lparr>tskhead := (tskhead e1)[j := t']\<rparr>" and ti: "task_inv t'"
        unfolding eq
        by (cases "prepare_for_sending (pktkeeper (tskhead e1 ! j)) (max_payload_len e1) h None")
           (auto simp: task_inv_def)
      have l: "length (tskhead e') = length (tskhead e)" using C(3) by (simp add: e')
      have nth: "tskhead e' ! k = (if k = j then t' else tskhead e ! k)" 
        if "k < length (tskhead e)" for k
        using that C(3) C(5) by (simp add: e' nth_list_update)
      have "task_inv (tskhead e' ! k)" if "k < length (tskhead e')" for k
        using that l nth [of k] ti pool_inv_nth [OF inv, of k] by (simp split: if_splits)
      then have p: "pool_inv e'" by (simp add: pool_inv_def list_all_length)
      have "tskhead e' ! k = tskhead e ! k" if "status (tskhead e ! k) \<noteq> ST_NOTHING" for k
      proof -
        from that C(2) have "k \<noteq> j" by auto
        then show ?thesis using C(5) by (simp add: e')
      qed
      with p l show ?thesis by blast
    qed
  qed
  then show "pool_inv e'" "length (tskhead e') = length (tskhead e)"
    "\<forall>k. status (tskhead e ! k) \<noteq> ST_NOTHING \<longrightarrow> tskhead e' ! k = tskhead e ! k"
    by blast+
qed

lemma send_ack_cases:
  assumes r: "send_ack env i e = Inr e'"
  shows "e' = e \<or> (\<exists>h rc tid. send_ack_noblock env h e = Inr (e', rc, tid))"
proof (cases "snd (from_flags (get_flags (pktkeeper (tskhead e ! i)))) AND FLAG_SIN \<noteq> 0")
  case False
  with r have "e' = e" by (simp add: send_ack_def Let_def split_beta)
  then show ?thesis ..
next
  case True
  show ?thesis
  proof (cases "get_header_ptr (pktkeeper (tskhead e ! i))")
    case None
    with r True show ?thesis by (simp add: send_ack_def Let_def split_beta)
  next
    case (Some h)
    let ?h = "\<lparr> dst = src h, src = device_addr e,
                flags = to_flags (fst (from_flags (get_flags (pktkeeper (tskhead e ! i))))) FLAG_ACK,
                pktid = pktid h, len = 0 \<rparr>"
    from r True Some have "err_bind (send_ack_noblock env ?h e) (\<lambda>(e, r, tid). Inr e) = Inr e'"
      by (simp add: send_ack_def Let_def split_beta)
    then have "\<exists>rc tid. send_ack_noblock env ?h e = Inr (e', rc, tid)"
      by (cases "send_ack_noblock env ?h e") auto
    then show ?thesis by blast
  qed
qed

lemma send_ack_inv:
  assumes inv: "pool_inv e" and r: "send_ack env i e = Inr e'"
  shows "pool_inv e'" "length (tskhead e') = length (tskhead e)"
    "\<forall>k. status (tskhead e ! k) \<noteq> ST_NOTHING \<longrightarrow> tskhead e' ! k = tskhead e ! k"
proof -
  from send_ack_cases [OF r]
  have "pool_inv e' \<and> length (tskhead e') = length (tskhead e)
    \<and> (\<forall>k. status (tskhead e ! k) \<noteq> ST_NOTHING \<longrightarrow> tskhead e' ! k = tskhead e ! k)"
  proof
    assume "e' = e"
    with inv show ?thesis by simp
  next
    assume "\<exists>h rc tid. send_ack_noblock env h e = Inr (e', rc, tid)"
    then obtain h rc tid where "send_ack_noblock env h e = Inr (e', rc, tid)" by blast
    from send_ack_noblock_inv [OF inv this] show ?thesis by blast
  qed
  then show "pool_inv e'" "length (tskhead e') = length (tskhead e)"
    "\<forall>k. status (tskhead e ! k) \<noteq> ST_NOTHING \<longrightarrow> tskhead e' ! k = tskhead e ! k"
    by blast+
qed

lemma tev_received_shape:
  assumes r: "tev_received env i pk seen False e = Inr (e', st, c)"
  shows "(e' = e \<and> st = status (tskhead e ! i))
    \<or> (\<exists>t'. e' = e\<lparr>tskhead := (tskhead e)[i := t']\<rparr>
            \<and> status t' = status (tskhead e ! i)
            \<and> ((evtsub_wakeup t' = evtsub_wakeup (tskhead e ! i)
                  \<and> (st = status (tskhead e ! i)
                       \<or> (st = ST_SEND_DONE \<and> status (tskhead e ! i) = ST_SEND)))
                \<or> evtsub_wakeup t'))
    \<or> (status (tskhead e ! i) = ST_RECEIVE_DATA_RETRIEVED \<and> st = ST_RECEIVE_DATA_RETRIEVED
          \<and> send_ack env i e = Inr e')"
proof -
  let ?t = "tskhead e ! i"
  let ?same = "e' = e \<and> st = status ?t"
  obtain hb where hb: "get_header_ptr pk = Some hb"
    using r by (cases "get_header_ptr pk") (simp_all add: tev_received_def)
  show ?thesis
  proof (cases "snd (from_flags (get_flags pk)) AND FLAG_ACK \<noteq> 0")
    case ack: True
    show ?thesis
    proof (cases "(status ?t = ST_SEND \<or> status ?t = ST_SEND_DONE)
                    \<and> need_ack ?t \<and> \<not> has_received_ack ?t")
      case False
      with r hb ack have ?same
        by (auto simp: tev_received_def Let_def split_beta split: if_splits)
      then show ?thesis by blast
    next
      case cond: True
      show ?thesis
      proof (cases "get_header_ptr (pktkeeper ?t)")
        case None
        with r hb ack cond show ?thesis
          by (auto simp: tev_received_def Let_def split_beta split: if_splits)
      next
        case (Some th)
        show ?thesis
        proof (cases "pktid th = pktid hb")
          case False
          with r hb ack cond Some have ?same
            by (auto simp: tev_received_def Let_def split_beta split: if_splits)
          then show ?thesis by blast
        next
          case True
          have rd: "reduce_packet_to_its_header (pktkeeper (t'\<lparr>pktkeeper := pktkeeper ?t\<rparr>))
             = reduce_packet_to_its_header (pktkeeper ?t)" for t' :: Task
            by simp
          show ?thesis
          proof (cases "reduce_packet_to_its_header (pktkeeper ?t)")
            case (Inl x)
            with r hb ack cond Some True show ?thesis
              by (auto simp: tev_received_def Let_def split_beta split: if_splits)
          next
            case (Inr pk')
            with r hb ack cond Some True
            have "\<exists>t'. e' = e\<lparr>tskhead := (tskhead e)[i := t']\<rparr>
                \<and> status t' = status ?t \<and> evtsub_wakeup t' = evtsub_wakeup ?t
                \<and> (st = status ?t \<or> (st = ST_SEND_DONE \<and> status ?t = ST_SEND))"
              by (auto simp: tev_received_def Let_def split_beta split: if_splits)
            then show ?thesis by blast
          qed
        qed
      qed
    qed
  next
    case nack: False
    show ?thesis
    proof (cases "status ?t = ST_RECEIVE \<and> \<not> seen")
      case True
      then have ne: "status ?t \<noteq> ST_SEND" "status ?t \<noteq> ST_SEND_DONE" by simp_all
      show ?thesis
      proof (cases "copy_packet (pktkeeper ?t) pk")
        case (Inl x)
        with r hb nack True show ?thesis
          by (auto simp: tev_received_def Let_def split_beta)
      next
        case (Inr pk')
        with r hb nack True
        have "\<exists>t'. e' = e\<lparr>tskhead := (tskhead e)[i := t']\<rparr>
                \<and> status t' = status ?t \<and> evtsub_wakeup t'"
          by (auto simp: tev_received_def Let_def split_beta)
        then show ?thesis by blast
      qed
    next
      case nrecv: False
      show ?thesis
      proof (cases "status ?t = ST_RECEIVE_DATA_AVAILABLE \<or> status ?t = ST_RECEIVE_DATA_RETRIEVED")
        case False
        with r hb nack nrecv have ?same
          by (auto simp: tev_received_def Let_def split_beta)
        then show ?thesis by blast
      next
        case da: True
        show ?thesis
        proof (cases "get_header_ptr (pktkeeper ?t)")
          case None
          with r hb nack nrecv da show ?thesis
            by (auto simp: tev_received_def Let_def split_beta)
        next
          case (Some th)
          show ?thesis
          proof (cases "pktid th = pktid hb \<and> src th = src hb")
            case False
            with r hb nack nrecv da Some have ?same
              by (auto simp: tev_received_def Let_def split_beta)
            then show ?thesis by blast
          next
            case m: True
            show ?thesis
            proof (cases "status ?t = ST_RECEIVE_DATA_RETRIEVED")
              case False
              with r hb nack nrecv da Some m have ?same
                by (auto simp: tev_received_def Let_def split_beta)
              then show ?thesis by blast
            next
              case rt: True
              have "send_ack env i e = Inr e' \<and> st = ST_RECEIVE_DATA_RETRIEVED"
              proof (cases "send_ack env i e")
                case (Inl x)
                with r hb nack nrecv da Some m rt show ?thesis
                  by (auto simp: tev_received_def Let_def split_beta)
              next
                case (Inr e2)
                with r hb nack nrecv da Some m rt show ?thesis
                  by (auto simp: tev_received_def Let_def split_beta)
              qed
              with rt show ?thesis by blast
            qed
          qed
        qed
      qed
    qed
  qed
qed

lemma tev_received_inv:
  assumes inv: "pool_inv e" and i: "i < length (tskhead e)"
    and r: "tev_received env i pk seen False e = Inr (e', st, c)"
  shows "pool_inv e'" "length (tskhead e') = length (tskhead e)"
    "task_inv ((tskhead e' ! i)\<lparr>status := st\<rparr>)"
    "status (tskhead e' ! i) = status (tskhead e ! i)"
proof -
  let ?t = "tskhead e ! i"
  note ti = pool_inv_nth [OF inv i]
  from tev_received_shape [OF r] consider
      (same) "e' = e" "st = status ?t"
    | (upd) t' where "e' = e\<lparr>tskhead := (tskhead e)[i := t']\<rparr>" "status t' = status ?t"
        "(evtsub_wakeup t' = evtsub_wakeup ?t
            \<and> (st = status ?t \<or> (st = ST_SEND_DONE \<and> status ?t = ST_SEND)))
         \<or> evtsub_wakeup t'"
    | (ack) "status ?t = ST_RECEIVE_DATA_RETRIEVED" "st = ST_RECEIVE_DATA_RETRIEVED"
        "send_ack env i e = Inr e'"
    by blast
  then have "pool_inv e' \<and> length (tskhead e') = length (tskhead e)
    \<and> task_inv ((tskhead e' ! i)\<lparr>status := st\<rparr>) \<and> status (tskhead e' ! i) = status ?t"
  proof cases
    case same
    with inv ti show ?thesis by (simp add: task_inv_def)
  next
    case (upd t')
    note e' = upd(1) and s = upd(2) and w = upd(3)
    from w s ti have a: "task_inv t'" and b: "task_inv (t'\<lparr>status := st\<rparr>)"
      by (auto simp: task_inv_def)
    have "pool_inv e'" by (rule pool_inv_update [OF inv a]) (simp add: e')
    with i s b show ?thesis by (simp add: e')
  next
    case ack
    note s = ack(1,2) and a = ack(3)
    note A = send_ack_inv [OF inv a]
    from A(3) s have "tskhead e' ! i = ?t" by simp
    with A ti s show ?thesis by (simp add: task_inv_def)
  qed
  then show "pool_inv e'" "length (tskhead e') = length (tskhead e)"
    "task_inv ((tskhead e' ! i)\<lparr>status := st\<rparr>)"
    "status (tskhead e' ! i) = status (tskhead e ! i)"
    by blast+
qed

lemma transmit_shape:
  assumes "transmit i e = Inr e1"
  shows "\<exists>t1. tskhead e1 = (tskhead e)[i := t1] \<and> status t1 = status (tskhead e ! i)
     \<and> evtsub_wakeup t1 = evtsub_wakeup (tskhead e ! i)"
  using assms
  by (auto simp: transmit_def Let_def split_beta split: if_splits)

lemma schedule_next_shape:
  assumes "schedule_next env i e1 = Inr (e', st)"
  shows "\<exists>t2. tskhead e' = (tskhead e1)[i := t2] \<and> status t2 = status (tskhead e1 ! i)
     \<and> evtsub_wakeup t2 = evtsub_wakeup (tskhead e1 ! i)
     \<and> (st = status (tskhead e1 ! i) \<or> st = ST_SEND_DONE)"
proof (cases "send_schedule_pos (tskhead e1 ! i) + 1 < nb_send_schedules (tskhead e1 ! i)")
  case True
  show ?thesis
  proof (cases "sched_at (send_schedule_ptr (tskhead e1 ! i)) (send_schedule_pos (tskhead e1 ! i) + 1)")
    case (Inl x)
    with assms True show ?thesis by (simp add: schedule_next_def Let_def)
  next
    case (Inr d)
    with assms True show ?thesis by (auto simp: schedule_next_def Let_def)
  qed
next
  case False
  with assms show ?thesis by (auto simp: schedule_next_def Let_def)
qed

lemma data_retrieved_post_shape:
  assumes "data_retrieved_post i e = Inr e'"
  shows "\<exists>t'. e' = e\<lparr>tskhead := (tskhead e)[i := t']\<rparr> \<and> status t' = status (tskhead e ! i)
     \<and> evtsub_wakeup t'"
proof (cases "reduce_packet_to_its_header (pktkeeper (tskhead e ! i))")
  case (Inl x)
  with assms show ?thesis by (simp add: data_retrieved_post_def Let_def)
next
  case (Inr pk)
  with assms show ?thesis by (auto simp: data_retrieved_post_def Let_def)
qed

lemma tev_wakeup_inv:
  assumes inv: "pool_inv e" and i: "i < length (tskhead e)"
    and r: "tev_wakeup env i e = Inr (e', st)"
  shows "pool_inv e'" "length (tskhead e') = length (tskhead e)"
    "task_inv ((tskhead e' ! i)\<lparr>status := st\<rparr>)"
    "status (tskhead e' ! i) = status (tskhead e ! i)"
proof -
  let ?t = "tskhead e ! i"
  note ti = pool_inv_nth [OF inv i]
  have "\<exists>t'. tskhead e' = (tskhead e)[i := t'] \<and> status t' = status ?t
     \<and> (evtsub_wakeup ?t \<longrightarrow> evtsub_wakeup t') \<and> task_inv (t'\<lparr>status := st\<rparr>)"
  proof (cases "status ?t")
    case ST_SEND
    let ?tx = "\<not> need_ack ?t \<or> uint (send_schedule_pos ?t) < uint (nb_send_schedules ?t) - 1"
    from r ST_SEND have b: "err_bind (if ?tx then transmit i e else Inr e) (schedule_next env i) = Inr (e', st)"
      by (simp add: tev_wakeup_def Let_def)
    then obtain e1 where e1: "(if ?tx then transmit i e else Inr e) = Inr e1"
      and sn: "schedule_next env i e1 = Inr (e', st)"
      by (cases "if ?tx then transmit i e else Inr e") simp_all
    have "\<exists>t1. tskhead e1 = (tskhead e)[i := t1] \<and> status t1 = status ?t
       \<and> evtsub_wakeup t1 = evtsub_wakeup ?t"
    proof (cases ?tx)
      case True
      with e1 have "transmit i e = Inr e1" by simp
      from transmit_shape [OF this] show ?thesis .
    next
      case False
      with e1 have "e1 = e" by simp
      then have "tskhead e1 = (tskhead e)[i := ?t]" by simp
      then show ?thesis by blast
    qed
    then obtain t1 where t1: "tskhead e1 = (tskhead e)[i := t1]" "status t1 = status ?t"
       "evtsub_wakeup t1 = evtsub_wakeup ?t" by blast
    from t1(1) i have n1: "tskhead e1 ! i = t1" by simp
    from schedule_next_shape [OF sn] obtain t2 where t2: "tskhead e' = (tskhead e1)[i := t2]"
      "status t2 = status (tskhead e1 ! i)" "evtsub_wakeup t2 = evtsub_wakeup (tskhead e1 ! i)"
      "st = status (tskhead e1 ! i) \<or> st = ST_SEND_DONE" by blast
    from t2(1) t1(1) have u: "tskhead e' = (tskhead e)[i := t2]" by simp
    from ti ST_SEND have w: "evtsub_wakeup ?t" by (simp add: task_inv_def)
    from t2 n1 t1 w ST_SEND have "status t2 = status ?t" "evtsub_wakeup t2"
      "task_inv (t2\<lparr>status := st\<rparr>)"
      by (auto simp: task_inv_def)
    with u show ?thesis by blast
  next
    case ST_NOTHING
    with r show ?thesis by (simp add: tev_wakeup_def Let_def)
  next
    case ST_FINISHED
    with r show ?thesis by (simp add: tev_wakeup_def Let_def)
  next
    case ST_SEND_DONE
    with r have "e' = e" "st = ST_FINISHED" by (simp_all add: tev_wakeup_def Let_def)
    then have "tskhead e' = (tskhead e)[i := ?t]" "task_inv (?t\<lparr>status := st\<rparr>)"
      by (simp_all add: task_inv_def)
    then show ?thesis by blast
  next
    case ST_RECEIVE_DATA_RETRIEVED
    with r have "e' = e" "st = ST_FINISHED" by (simp_all add: tev_wakeup_def Let_def)
    then have "tskhead e' = (tskhead e)[i := ?t]" "task_inv (?t\<lparr>status := st\<rparr>)"
      by (simp_all add: task_inv_def)
    then show ?thesis by blast
  next
    case ST_RECEIVE_TIMEDOUT
    with r have "e' = e" "st = ST_FINISHED" by (simp_all add: tev_wakeup_def Let_def)
    then have "tskhead e' = (tskhead e)[i := ?t]" "task_inv (?t\<lparr>status := st\<rparr>)"
      by (simp_all add: task_inv_def)
    then show ?thesis by blast
  next
    case ST_RECEIVE_DATA_AVAILABLE
    with r have "err_bind (data_retrieved_post i e) (\<lambda>e. Inr (e, ST_RECEIVE_TIMEDOUT)) = Inr (e', st)"
      by (simp add: tev_wakeup_def Let_def)
    then have "data_retrieved_post i e = Inr e'" "st = ST_RECEIVE_TIMEDOUT"
      by (cases "data_retrieved_post i e"; simp)+
    from data_retrieved_post_shape [OF this(1)] obtain t' where
      "e' = e\<lparr>tskhead := (tskhead e)[i := t']\<rparr>" "status t' = status ?t" "evtsub_wakeup t'"
      by blast
    then have "tskhead e' = (tskhead e)[i := t']" "status t' = status ?t" "evtsub_wakeup t'"
      "task_inv (t'\<lparr>status := st\<rparr>)"
      by (simp_all add: task_inv_def)
    then show ?thesis by blast
  next
    case ST_RECEIVE
    let ?t' = "?t\<lparr>evtsub_wakeup := True,
                  mtime_wakeup := mtime_ref ?t + DEFAULT_RECEIVE_TIMEOUT_DELAY\<rparr>"
    from r ST_RECEIVE have "e' = e\<lparr>tskhead := (tskhead e)[i := ?t']\<rparr>" "st = ST_RECEIVE_TIMEDOUT"
      by (simp_all add: tev_wakeup_def Let_def)
    then have "tskhead e' = (tskhead e)[i := ?t']" "status ?t' = status ?t" "evtsub_wakeup ?t'"
      "task_inv (?t'\<lparr>status := st\<rparr>)"
      by (simp_all add: task_inv_def)
    then show ?thesis by blast
  qed
  then obtain t' where t': "tskhead e' = (tskhead e)[i := t']" "status t' = status ?t"
     "evtsub_wakeup ?t \<longrightarrow> evtsub_wakeup t'" "task_inv (t'\<lparr>status := st\<rparr>)" by blast
  from t'(2,3) ti have a: "task_inv t'" by (simp add: task_inv_def)
  have p: "pool_inv e'" by (rule pool_inv_update [OF inv a t'(1)])
  from t'(1) i have n: "tskhead e' ! i = t'" by simp
  show "pool_inv e'" by (rule p)
  show "length (tskhead e') = length (tskhead e)" by (simp add: t'(1))
  show "task_inv ((tskhead e' ! i)\<lparr>status := st\<rparr>)" using t'(4) n by simp
  show "status (tskhead e' ! i) = status (tskhead e ! i)" using t'(2) n by simp
qed

lemma deliver_frame_inv:
  assumes inv: "pool_inv e" and i: "i < length (tskhead e)"
    and r: "deliver_frame env seen i e got = Inr (e1, ns, got1)"
  shows "pool_inv e1" "length (tskhead e1) = length (tskhead e)"
    "task_inv ((tskhead e1 ! i)\<lparr>status := ns\<rparr>)"
proof -
  let ?t = "tskhead e ! i"
  note ti = pool_inv_nth [OF inv i]
  have "pool_inv e1 \<and> length (tskhead e1) = length (tskhead e)
    \<and> task_inv ((tskhead e1 ! i)\<lparr>status := ns\<rparr>)"
  proof (cases "evtsub_pktrcvd ?t \<and> got")
    case False
    with r have "e1 = e" "ns = status ?t" by (auto simp: deliver_frame_def Let_def)
    with inv ti show ?thesis by (simp add: task_inv_def)
  next
    case True
    show ?thesis
    proof (cases "recpkt e")
      case None
      with r True show ?thesis by (simp add: deliver_frame_def Let_def)
    next
      case (Some pk)
      show ?thesis
      proof (cases "tev_received env i pk seen False e")
        case (Inl x)
        with r True Some show ?thesis by (simp add: deliver_frame_def Let_def)
      next
        case (Inr x)
        obtain a b c where x: "x = (a, b, c)" by (cases x)
        with r True Some Inr have "a = e1" "b = ns"
          by (simp_all add: deliver_frame_def Let_def)
        with Inr x have "tev_received env i pk seen False e = Inr (e1, ns, c)" by simp
        from tev_received_inv [OF inv i this] show ?thesis by blast
      qed
    qed
  qed
  then show "pool_inv e1" "length (tskhead e1) = length (tskhead e)"
    "task_inv ((tskhead e1 ! i)\<lparr>status := ns\<rparr>)"
    by blast+
qed

lemma deliver_timer_inv:
  assumes inv: "pool_inv e" and i: "i < length (tskhead e)"
    and ti: "task_inv ((tskhead e ! i)\<lparr>status := ns\<rparr>)"
    and r: "deliver_timer env i e ns = Inr (e2, ns2)"
  shows "pool_inv e2" "length (tskhead e2) = length (tskhead e)"
    "task_inv ((tskhead e2 ! i)\<lparr>status := ns2\<rparr>)"
proof -
  let ?t = "tskhead e ! i"
  have "pool_inv e2 \<and> length (tskhead e2) = length (tskhead e)
    \<and> task_inv ((tskhead e2 ! i)\<lparr>status := ns2\<rparr>)"
  proof (cases "evtsub_wakeup ?t \<and> ns = status ?t \<and> sint (now env - mtime_wakeup ?t) \<ge> 0")
    case False
    with r have "e2 = e" "ns2 = ns" by (auto simp: deliver_timer_def Let_def)
    with inv ti show ?thesis by simp
  next
    case True
    with r have "tev_wakeup env i e = Inr (e2, ns2)" by (simp add: deliver_timer_def Let_def)
    from tev_wakeup_inv [OF inv i this] show ?thesis by blast
  qed
  then show "pool_inv e2" "length (tskhead e2) = length (tskhead e)"
    "task_inv ((tskhead e2 ! i)\<lparr>status := ns2\<rparr>)"
    by blast+
qed

lemma commit_status_inv:
  assumes inv: "pool_inv e" and i: "i < length (tskhead e)"
    and ti: "task_inv ((tskhead e ! i)\<lparr>status := ns\<rparr>)"
    and r: "commit_status i e ns rst = Inr (e3, rst3)"
  shows "pool_inv e3" "length (tskhead e3) = length (tskhead e)"
proof -
  let ?t = "tskhead e ! i"
  have "pool_inv e3 \<and> length (tskhead e3) = length (tskhead e)"
  proof (cases "ns = ST_FINISHED")
    case True
    with r have e3: "e3 = task_destroy i e"
      by (simp add: commit_status_def Let_def split: if_splits)
    have "task_inv (task_initialize t)" for t by (simp add: task_inv_def task_initialize_def)
    then have "pool_inv e3"
      by (rule pool_inv_update [OF inv]) (simp add: e3 task_destroy_def Let_def)
    then show ?thesis by (simp add: e3 task_destroy_def Let_def)
  next
    case False
    with r have e3: "e3 = e\<lparr>tskhead := (tskhead e)[i := ?t\<lparr>status := ns\<rparr>]\<rparr>"
      by (simp add: commit_status_def Let_def split: if_splits)
    have "pool_inv e3" by (rule pool_inv_update [OF inv ti]) (simp add: e3)
    then show ?thesis by (simp add: e3)
  qed
  then show "pool_inv e3" "length (tskhead e3) = length (tskhead e)" by blast+
qed

lemma task_body_inv:
  assumes inv: "pool_inv e" and i: "i < length (tskhead e)"
    and r: "task_body env seen i (e, got, rst) = Inr (e', got', rst')"
  shows "pool_inv e'" "length (tskhead e') = length (tskhead e)"
proof -
  from r obtain x1 where d1: "deliver_frame env seen i e got = Inr x1"
    by (cases "deliver_frame env seen i e got") (simp_all add: task_body_def)
  obtain e1 ns1 got1 where x1: "x1 = (e1, ns1, got1)" by (cases x1)
  note D1 = deliver_frame_inv [OF inv i d1 [unfolded x1]]
  from D1(2) i have i1: "i < length (tskhead e1)" by simp
  from r d1 x1 obtain x2 where d2: "deliver_timer env i e1 ns1 = Inr x2"
    by (cases "deliver_timer env i e1 ns1") (simp_all add: task_body_def)
  obtain e2 ns2 where x2: "x2 = (e2, ns2)" by (cases x2)
  note D2 = deliver_timer_inv [OF D1(1) i1 D1(3) d2 [unfolded x2]]
  from D2(2) i1 have i2: "i < length (tskhead e2)" by simp
  from r d1 x1 d2 x2 obtain x3 where d3: "commit_status i e2 ns2 rst = Inr x3"
    by (cases "commit_status i e2 ns2 rst") (simp_all add: task_body_def)
  obtain e3 rst3 where x3: "x3 = (e3, rst3)" by (cases x3)
  note D3 = commit_status_inv [OF D2(1) i2 D2(3) d3 [unfolded x3]]
  from r d1 x1 d2 x2 d3 x3 have "e' = e3" by (simp add: task_body_def)
  with D3 D2(2) D1(2) show "pool_inv e'" "length (tskhead e') = length (tskhead e)" by simp_all
qed

lemma task_loop_inv:
  assumes "pool_inv e" and "\<forall>i \<in> set idxs. i < length (tskhead e)"
    and "task_loop env seen idxs (e, got, rst) = Inr (e', got', rst')"
  shows "pool_inv e' \<and> length (tskhead e') = length (tskhead e)"
  using assms
proof (induction idxs arbitrary: e got rst)
  case Nil
  then show ?case by simp
next
  case (Cons i idxs)
  from Cons.prems(3) obtain x where b: "task_body env seen i (e, got, rst) = Inr x"
    and l: "task_loop env seen idxs x = Inr (e', got', rst')"
    by (cases "task_body env seen i (e, got, rst)") simp_all
  obtain e1 got1 rst1 where x: "x = (e1, got1, rst1)" by (cases x)
  from Cons.prems(2) have i: "i < length (tskhead e)" by simp
  note B = task_body_inv [OF Cons.prems(1) i b [unfolded x]]
  from Cons.prems(2) B(2) have "\<forall>i \<in> set idxs. i < length (tskhead e1)" by simp
  from Cons.IH [OF B(1) this l [unfolded x]] B(2) show ?case by simp
qed

lemma pool_inv_cong: "tskhead e1 = tskhead e \<Longrightarrow> pool_inv e1 = pool_inv e"
  by (simp add: pool_inv_def)

lemma interrupts_on_tskhead: "interrupts_on e = Inr e1 \<Longrightarrow> tskhead e1 = tskhead e"
  by (auto simp: interrupts_on_def split: if_splits)

lemma interrupts_off_tskhead: "interrupts_off e = Inr e1 \<Longrightarrow> tskhead e1 = tskhead e"
  by (auto simp: interrupts_off_def split: if_splits)

lemma receive_frame_tskhead:
  assumes "receive_frame env e = Inr (e1, got)"
  shows "tskhead e1 = tskhead e"
proof -
  let ?a = "initialize_recpkt_if_necessary env e"
  have ta: "tskhead ?a = tskhead e"
    by (simp add: initialize_recpkt_if_necessary_def split: option.split)
  from assms obtain b nb where b: "call_deviceReceive env ?a = Inr (b, nb)" and "e1 = b"
    by (cases "call_deviceReceive env ?a")
       (auto simp: receive_frame_def Let_def split: option.splits)
  from b have "tskhead b = tskhead ?a"
    by (auto simp: call_deviceReceive_def split: option.splits if_splits)
  with ta \<open>e1 = b\<close> show ?thesis by simp
qed

lemma drain_tskhead:
  assumes "drain env w e = Inr (e1, got)"
  shows "tskhead e1 = tskhead e"
proof -
  from assms obtain a where a: "interrupts_off e = Inr a"
    by (cases "interrupts_off e") (simp_all add: drain_def)
  from assms a obtain b g where
    b: "(if w then receive_frame env a else Inr (a, False)) = Inr (b, g)"
    by (cases "if w then receive_frame env a else Inr (a, False)")
       (auto simp: drain_def)
  have tb: "tskhead b = tskhead a"
  proof (cases w)
    case True
    with b have "receive_frame env a = Inr (b, g)" by simp
    then show ?thesis by (rule receive_frame_tskhead)
  next
    case False
    with b show ?thesis by simp
  qed
  from assms a b obtain c where c: "interrupts_on (b\<lparr>interrupted := False\<rparr>) = Inr c" and "e1 = c"
    by (cases "interrupts_on (b\<lparr>interrupted := False\<rparr>)")
       (auto simp: drain_def)
  from interrupts_on_tskhead [OF c] tb interrupts_off_tskhead [OF a] \<open>e1 = c\<close>
  show ?thesis by simp
qed

lemma consult_cache_tskhead:
  assumes "consult_cache env e = Inr (e1, seen)"
  shows "tskhead e1 = tskhead e"
  using assms
  by (auto simp: consult_cache_def split: option.splits dest!: err_bind_Inr)

lemma reset_sleep_tskhead:
  "tskhead (sleep_if_idle (reset_device env rst e)) = tskhead e"
  by (simp add: sleep_if_idle_def reset_device_def)

lemma do_events_inv:
  assumes inv: "pool_inv e" and r: "do_events env e = Inr e'"
  shows "pool_inv e'" "length (tskhead e') = length (tskhead e)"
proof -
  have "pool_inv e' \<and> length (tskhead e') = length (tskhead e)"
  proof (cases "deviceInit (funcs e)")
    case False
    with r have "e' = e" by (simp add: do_events_def)
    with inv show ?thesis by simp
  next
    case True
    let ?w = "list_ex evtsub_pktrcvd (tskhead e) \<and> deviceReceive (funcs e)"
    from r True obtain e1 where s1: "(if ?w then interrupts_on e else Inr e) = Inr e1"
      by (cases "if ?w then interrupts_on e else Inr e") (simp_all add: do_events_def Let_def)
    then have t1: "tskhead e1 = tskhead e"
      by (auto split: if_splits dest: interrupts_on_tskhead)
    from r True s1 obtain x2 where
      s2: "(if interrupted e1 then drain env ?w e1 else Inr (e1, False)) = Inr x2"
      by (cases "if interrupted e1 then drain env ?w e1 else Inr (e1, False)")
         (simp_all add: do_events_def Let_def)
    obtain e2 got where x2: "x2 = (e2, got)" by (cases x2)
    from s2 x2 have t2: "tskhead e2 = tskhead e1"
      by (auto split: if_splits dest: drain_tskhead)
    from r True s1 s2 x2 obtain x3 where
      s3: "(if got then consult_cache env e2 else Inr (e2, False)) = Inr x3"
      by (cases "if got then consult_cache env e2 else Inr (e2, False)")
         (simp_all add: do_events_def Let_def)
    obtain e3 seen where x3: "x3 = (e3, seen)" by (cases x3)
    from s3 x3 have t3: "tskhead e3 = tskhead e2"
      by (auto split: if_splits dest: consult_cache_tskhead)
    from r True s1 s2 x2 s3 x3 obtain x4 where
      s4: "task_loop env seen [0..<length (tskhead e3)] (e3, got, False) = Inr x4"
      by (cases "task_loop env seen [0..<length (tskhead e3)] (e3, got, False)")
         (simp_all add: do_events_def Let_def)
    obtain e4 got4 rst4 where x4: "x4 = (e4, got4, rst4)" by (cases x4)
    from r True s1 s2 x2 s3 x3 s4 x4 have e': "e' = sleep_if_idle (reset_device env rst4 e4)"
      by (simp add: do_events_def Let_def)
    from t1 t2 t3 have t: "tskhead e3 = tskhead e" by simp
    with inv have i3: "pool_inv e3" by (simp add: pool_inv_def)
    have "\<forall>i \<in> set [0..<length (tskhead e3)]. i < length (tskhead e3)" by simp
    from task_loop_inv [OF i3 this s4 [unfolded x4]] t
    have "pool_inv e4" "length (tskhead e4) = length (tskhead e)" by simp_all
    then show ?thesis by (simp add: e' pool_inv_def reset_sleep_tskhead)
  qed
  then show "pool_inv e'" "length (tskhead e') = length (tskhead e)" by blast+
qed

lemma sched_at_first:
  "sched_at (if ack then snd_expack_sched else snd_sched) 0 = Inr 0"
  by (simp add: sched_at_def snd_expack_sched_def snd_sched_def)

lemma send_noblock_created:
  assumes "deviceInit (funcs e)" "deviceSend (funcs e)" "\<not> len' > max_payload_len e"
    "\<not> (len' = 0 \<and> payload \<noteq> None)"
    and "task_create env ST_SEND e = (Some j, e1)"
  shows "send_noblock env dst' payload len' ack e =
    (case prepare_for_sending (pktkeeper (tskhead e1 ! j)) (max_payload_len e1)
            \<lparr> dst = dst', src = device_addr e1,
              flags = to_flags 0 (if ack then FLAG_SIN else FLAG_NONE),
              pktid = last_pktid e1 + 1, len = len' \<rparr> payload of
       Inl err \<Rightarrow> Inl err
     | Inr pk \<Rightarrow>
         Inr (e1\<lparr>last_pktid := last_pktid e1 + 1,
                 tskhead := (tskhead e1)
                [j := (tskhead e1 ! j)\<lparr>evtsub_wakeup := True,
                        nb_send_schedules := (if ack then snd_expack_sched_len else snd_sched_len),
                        send_schedule_ptr := (if ack then snd_expack_sched else snd_sched),
                        send_schedule_pos := 0,
                        mtime_wakeup := mtime_ref (tskhead e1 ! j),
                        need_ack := (if ack then True else need_ack (tskhead e1 ! j)),
                        evtsub_pktrcvd := (if ack then True else evtsub_pktrcvd (tskhead e1 ! j)),
                        pktkeeper := pk\<rparr>]\<rparr>,
              ERR_TASK_CREATED_OK, Some (taskid (tskhead e1 ! j))))"
  using assms
  by (cases ack) (simp_all add: send_noblock_def Let_def sched_at_first [of True, simplified]
        sched_at_first [of False, simplified] split: sum.split)

lemma send_noblock_inv:
  assumes inv: "pool_inv e" and r: "send_noblock env dst' payload len' ack e = Inr (e', rc, tid)"
  shows "pool_inv e'"
proof (cases "\<not> deviceInit (funcs e) \<or> \<not> deviceSend (funcs e) \<or> len' > max_payload_len e
               \<or> (len' = 0 \<and> payload \<noteq> None)")
  case True
  with r have "e' = e" by (auto simp: send_noblock_def split: if_splits)
  with inv show ?thesis by simp
next
  case False
  obtain oj e1 where tc: "task_create env ST_SEND e = (oj, e1)" by (cases "task_create env ST_SEND e")
  show ?thesis
  proof (cases oj)
    case None
    with tc have "e1 = e" by (simp add: task_create_None)
    with r False tc None have "e' = e" by (auto simp: send_noblock_def)
    with inv show ?thesis by simp
  next
    case (Some j)
    note C = task_create_Some [OF tc [unfolded Some]]
    from False have F: "deviceInit (funcs e)" "deviceSend (funcs e)" "\<not> len' > max_payload_len e"
      "\<not> (len' = 0 \<and> payload \<noteq> None)" by auto
    note eq = send_noblock_created [OF F tc [unfolded Some]]
    from r obtain t' where
      e': "tskhead e' = (tskhead e1)[j := t']" and ti: "task_inv t'"
      unfolding eq
      by (cases "prepare_for_sending (pktkeeper (tskhead e1 ! j)) (max_payload_len e1)
            \<lparr> dst = dst', src = device_addr e1,
              flags = to_flags 0 (if ack then FLAG_SIN else FLAG_NONE),
              pktid = last_pktid e1 + 1, len = len' \<rparr> payload")
         (auto simp: task_inv_def)
    have l: "length (tskhead e') = length (tskhead e)" using C(3) by (simp add: e')
    have nth: "tskhead e' ! k = (if k = j then t' else tskhead e ! k)"
      if "k < length (tskhead e)" for k
      using that C(3) C(5) by (simp add: e' nth_list_update)
    have "task_inv (tskhead e' ! k)" if "k < length (tskhead e')" for k
      using that l nth [of k] ti pool_inv_nth [OF inv, of k] by (simp split: if_splits)
    then show ?thesis by (simp add: pool_inv_def list_all_length)
  qed
qed

lemma receive_noblock_inv:
  assumes inv: "pool_inv e" and r: "receive_noblock env cfg e = (e', rc, tid)"
  shows "pool_inv e'"
proof (cases "\<not> deviceInit (funcs e) \<or> \<not> deviceReceive (funcs e)")
  case True
  with r have "e' = e" by (auto simp: receive_noblock_def split: if_splits)
  with inv show ?thesis by simp
next
  case False
  obtain oj e1 where tc: "task_create env ST_RECEIVE e = (oj, e1)"
    by (cases "task_create env ST_RECEIVE e")
  show ?thesis
  proof (cases oj)
    case None
    with tc have "e1 = e" by (simp add: task_create_None)
    with r False tc None have "e' = e" by (simp add: receive_noblock_def)
    with inv show ?thesis by simp
  next
    case (Some j)
    note C = task_create_Some [OF tc [unfolded Some]]
    from r False tc Some C(4) obtain t' where
      e': "tskhead e' = (tskhead e1)[j := t']" and ti: "task_inv t'"
      by (auto simp: receive_noblock_def Let_def task_inv_def split: option.splits if_splits)
    have l: "length (tskhead e') = length (tskhead e)" using C(3) by (simp add: e')
    have nth: "tskhead e' ! k = (if k = j then t' else tskhead e ! k)"
      if "k < length (tskhead e)" for k
      using that C(3) C(5) by (simp add: e' nth_list_update)
    have "task_inv (tskhead e' ! k)" if "k < length (tskhead e')" for k
      using that l nth [of k] ti pool_inv_nth [OF inv, of k] by (simp split: if_splits)
    then show ?thesis by (simp add: pool_inv_def list_all_length)
  qed
qed

lemma send_get_final_status_inv:
  assumes inv: "pool_inv e" and r: "send_get_final_status env tid e = (e', rc, n)"
  shows "pool_inv e'"
proof (cases "get_task_by_taskid tid e")
  case None
  with r have "e' = e" by (simp add: send_get_final_status_def)
  with inv show ?thesis by simp
next
  case (Some i)
  show ?thesis
  proof (cases "status (tskhead e ! i) = ST_SEND_DONE")
    case False
    with r Some have "e' = e" by (simp add: send_get_final_status_def Let_def)
    with inv show ?thesis by simp
  next
    case True
    let ?t' = "(tskhead e ! i)\<lparr>evtsub_wakeup := True, mtime_wakeup := now env\<rparr>"
    from r Some True have e': "tskhead e' = (tskhead e)[i := ?t']"
      by (auto simp: send_get_final_status_def Let_def)
    have "task_inv ?t'" by (simp add: task_inv_def)
    from pool_inv_update [OF inv this e'] show ?thesis .
  qed
qed

lemma data_retrieve_inv:
  assumes inv: "pool_inv e" and v: "\<forall>i. tsk' = Some i \<longrightarrow> i < length (tskhead e)"
    and r: "data_retrieve env tsk' buf_len want_sender e = Inr (e', st, buf, sd)"
  shows "pool_inv e'"
proof (cases tsk')
  case None
  with r have "e' = e" by (simp add: data_retrieve_def)
  with inv show ?thesis by simp
next
  case (Some i)
  let ?t = "tskhead e ! i"
  show ?thesis
  proof (cases "status ?t = ST_RECEIVE_DATA_AVAILABLE")
    case False
    with r Some have "e' = e" by (simp add: data_retrieve_def Let_def)
    with inv show ?thesis by simp
  next
    case True
    let ?s = "if want_sender then
                (case get_header_ptr (pktkeeper ?t) of
                   None \<Rightarrow> Inl NullDeref | Some h \<Rightarrow> Inr (Some (src h)))
              else Inr None"
    from r Some True obtain sd' where s: "?s = Inr sd'"
      by (cases ?s) (simp_all add: data_retrieve_def Let_def)
    from r Some True s obtain e1 where p: "data_retrieved_post i e = Inr e1"
      by (cases "data_retrieved_post i e") (simp_all add: data_retrieve_def Let_def)
    let ?e2 = "e1\<lparr>tskhead := (tskhead e1)
                  [i := (tskhead e1 ! i)\<lparr>status := ST_RECEIVE_DATA_RETRIEVED\<rparr>]\<rparr>"
    from r Some True s p have a: "send_ack env i ?e2 = Inr e'"
      by (cases "send_ack env i ?e2") (simp_all add: data_retrieve_def Let_def)
    from data_retrieved_post_shape [OF p] obtain t' where
      e1: "e1 = e\<lparr>tskhead := (tskhead e)[i := t']\<rparr>" and w: "evtsub_wakeup t'"
      by blast
    have t2: "tskhead ?e2 = (tskhead e)[i := (tskhead e1 ! i)\<lparr>status := ST_RECEIVE_DATA_RETRIEVED\<rparr>]"
      by (simp add: e1)
    from v Some have "i < length (tskhead e)" by simp
    with e1 have "tskhead e1 ! i = t'" by simp
    with w have "task_inv ((tskhead e1 ! i)\<lparr>status := ST_RECEIVE_DATA_RETRIEVED\<rparr>)"
      by (simp add: task_inv_def)
    from pool_inv_update [OF inv this t2] have "pool_inv ?e2" .
    from send_ack_inv(1) [OF this a] show ?thesis .
  qed
qed

lemma RFLink_new_inv: "RFLink_new maxtask d = Inr e0 \<Longrightarrow> pool_inv e0"
  by (auto simp: RFLink_new_def pool_inv_def list_all_iff task_inv_def task_initialize_def
        split: if_splits)

lemma sender_pool:
  "pool_inv sender_state" "\<not> isl (do_events (env_at 10) sender_state)"
  by code_simp+

text \<open>
  Claim C9: if every task whose status is not \<open>ST_RECEIVE\<close>, \<open>ST_NOTHING\<close> or \<open>ST_FINISHED\<close>
  is subscribed to the timer, then this still holds after a tick of the pump, after
  creating a sending or a receiving task, after retrieving the data of a task, after
  asking for the final status of a sending; inside a tick it holds after the frame or
  the timer was delivered to a task, also for the status that the delivery returns and
  that the pump then writes; and it holds for the engine that the constructor leaves.
\<close>

theorem timer_subscription_invariant:
  assumes inv: "pool_inv e"
  shows "(do_events env e = Inr e1 \<longrightarrow> pool_inv e1)
     \<and> (send_noblock env dst' payload len' ack e = Inr (e2, rc2, tid2) \<longrightarrow> pool_inv e2)
     \<and> (receive_noblock env cfg e = (e3, rc3, tid3) \<longrightarrow> pool_inv e3)
     \<and> (i < length (tskhead e)
          \<and> data_retrieve env (Some i) buf_len want_sender e = Inr (e4, st4, buf4, sd4)
          \<longrightarrow> pool_inv e4)
     \<and> (send_get_final_status env tid e = (e5, rc5, n5) \<longrightarrow> pool_inv e5)
     \<and> (i < length (tskhead e) \<and> tev_received env i pk seen False e = Inr (e6, st6, c6)
          \<longrightarrow> pool_inv e6 \<and> task_inv ((tskhead e6 ! i)\<lparr>status := st6\<rparr>))
     \<and> (i < length (tskhead e) \<and> tev_wakeup env i e = Inr (e7, st7)
          \<longrightarrow> pool_inv e7 \<and> task_inv ((tskhead e7 ! i)\<lparr>status := st7\<rparr>))
     \<and> (RFLink_new maxtask d = Inr e0 \<longrightarrow> pool_inv e0)"
proof (intro conjI impI)
  show "pool_inv e1" if "do_events env e = Inr e1"
    using do_events_inv(1) [OF inv that] .
  show "pool_inv e2" if "send_noblock env dst' payload len' ack e = Inr (e2, rc2, tid2)"
    using send_noblock_inv [OF inv that] .
  show "pool_inv e3" if "receive_noblock env cfg e = (e3, rc3, tid3)"
    using receive_noblock_inv [OF inv that] .
  show "pool_inv e4"
    if "i < length (tskhead e)
          \<and> data_retrieve env (Some i) buf_len want_sender e = Inr (e4, st4, buf4, sd4)"
    using data_retrieve_inv [OF inv, of "Some i" env buf_len want_sender e4 st4 buf4 sd4] that
    by simp
  show "pool_inv e5" if "send_get_final_status env tid e = (e5, rc5, n5)"
    using send_get_final_status_inv [OF inv that] .
  show "pool_inv e6" "task_inv ((tskhead e6 ! i)\<lparr>status := st6\<rparr>)"
    if "i < length (tskhead e) \<and> tev_received env i pk seen False e = Inr (e6, st6, c6)"
    using tev_received_inv(1,3) [OF inv, of i env pk seen e6 st6 c6] that by simp_all
  show "pool_inv e7" "task_inv ((tskhead e7 ! i)\<lparr>status := st7\<rparr>)"
    if "i < length (tskhead e) \<and> tev_wakeup env i e = Inr (e7, st7)"
    using tev_wakeup_inv(1,3) [OF inv, of i env e7 st7] that by simp_all
  show "pool_inv e0" if "RFLink_new maxtask d = Inr e0"
    using RFLink_new_inv [OF that] .
qed

theorem timer_subscription_invariant_witness:
  "pool_inv sender_state \<and> pool_inv (projr (do_events (env_at 10) sender_state))"
proof -
  have "do_events (env_at 10) sender_state = Inr (projr (do_events (env_at 10) sender_state))"
    using sender_pool(2) by (cases "do_events (env_at 10) sender_state") simp_all
  with timer_subscription_invariant [OF sender_pool(1),
      of "env_at 10" "projr (do_events (env_at 10) sender_state)", THEN conjunct1]
  show ?thesis using sender_pool(1) by simp
qed

subsection \<open>A frame that fails the validation is dropped\<close>

lemma reframe_fields [simp]:
  "tskhead (reframe x c e) = tskhead e" "dev (reframe x c e) = dev e"
  "funcs (reframe x c e) = funcs e" "send_purge_delay (reframe x c e) = send_purge_delay e"
  "receive_purge_delay (reframe x c e) = receive_purge_delay e"
  "auto_sleep (reframe x c e) = auto_sleep e"
  "last_device_reset (reframe x c e) = last_device_reset e"
  "recpkt (reframe x c e) = x" "cache_pktids (reframe x c e) = c"
  by (simp_all add: reframe_def)

lemma transmit_reframe:
  "transmit i (reframe x c e) = map_sum id (reframe x c) (transmit i e)"
  by (simp add: transmit_def Let_def split_beta reframe_def)

lemma schedule_next_reframe:
  "schedule_next env i (reframe x c e) = map_sum id (map_prod (reframe x c) id) (schedule_next env i e)"
  by (simp add: schedule_next_def Let_def reframe_def err_bind_def split: sum.split)

lemma data_retrieved_post_reframe:
  "data_retrieved_post i (reframe x c e) = map_sum id (reframe x c) (data_retrieved_post i e)"
  by (simp add: data_retrieved_post_def Let_def reframe_def err_bind_def split: sum.split)

lemma err_bind_reframe:
  assumes "\<And>a. g (f a) = map_sum id h (k a)"
  shows "err_bind (map_sum id f m) g = map_sum id h (err_bind m k)"
  using assms by (cases m) simp_all

lemma tev_wakeup_reframe:
  "tev_wakeup env i (reframe x c e)
     = map_sum id (map_prod (reframe x c) id) (tev_wakeup env i e)"
proof (cases "status (tskhead e ! i) = ST_SEND")
  case True
  let ?tx = "\<not> need_ack (tskhead e ! i)
     \<or> uint (send_schedule_pos (tskhead e ! i)) < uint (nb_send_schedules (tskhead e ! i)) - 1"
  note eb = err_bind_reframe [where g = "schedule_next env i" and f = "reframe x c"
      and h = "map_prod (reframe x c) id" and k = "schedule_next env i", OF schedule_next_reframe]
  show ?thesis
  proof (cases ?tx)
    case tx: True
    with True have "tev_wakeup env i (reframe x c e)
        = err_bind (map_sum id (reframe x c) (transmit i e)) (schedule_next env i)"
      by (simp add: tev_wakeup_def Let_def transmit_reframe)
    also have "\<dots> = map_sum id (map_prod (reframe x c) id)
        (err_bind (transmit i e) (schedule_next env i))"
      by (rule eb)
    also have "err_bind (transmit i e) (schedule_next env i) = tev_wakeup env i e"
      using True tx by (simp add: tev_wakeup_def Let_def)
    finally show ?thesis .
  next
    case tx: False
    with True have "tev_wakeup env i (reframe x c e) = schedule_next env i (reframe x c e)"
      by (simp add: tev_wakeup_def Let_def)
    also have "\<dots> = map_sum id (map_prod (reframe x c) id) (schedule_next env i e)"
      by (rule schedule_next_reframe)
    also have "schedule_next env i e = tev_wakeup env i e"
      using True tx by (simp add: tev_wakeup_def Let_def)
    finally show ?thesis .
  qed
next
  case False
  have 2: "err_bind (data_retrieved_post i (reframe x c e)) (\<lambda>e. Inr (e, ST_RECEIVE_TIMEDOUT))
    = map_sum id (map_prod (reframe x c) id)
        (err_bind (data_retrieved_post i e) (\<lambda>e. Inr (e, ST_RECEIVE_TIMEDOUT)))"
    by (simp add: data_retrieved_post_reframe err_bind_reframe)
  show ?thesis
    using False
    by (simp add: tev_wakeup_def Let_def 2) (simp add: reframe_def)
qed

lemma deliver_timer_reframe:
  "deliver_timer env i (reframe x c e) ns
     = map_sum id (map_prod (reframe x c) id) (deliver_timer env i e ns)"
  by (simp add: deliver_timer_def Let_def tev_wakeup_reframe)

lemma task_destroy_reframe:
  "task_destroy i (reframe x c e) = reframe x c (task_destroy i e)"
  by (simp add: task_destroy_def Let_def reframe_def)

lemma commit_status_reframe:
  "commit_status i (reframe x c e) ns rst
     = map_sum id (map_prod (reframe x c) id) (commit_status i e ns rst)"
  by (simp add: commit_status_def Let_def task_destroy_reframe) (simp add: reframe_def)

lemma deliver_frame_no_frame:
  "deliver_frame env seen i e False = Inr (e, status (tskhead e ! i), False)"
  by (simp add: deliver_frame_def)

lemma task_body_no_frame:
  "task_body env seen i (e, False, rst) =
     err_bind (deliver_timer env i e (status (tskhead e ! i)))
       (\<lambda>(e, ns). err_bind (commit_status i e ns rst) (\<lambda>(e, rst). Inr (e, False, rst)))"
  by (simp add: task_body_def deliver_frame_no_frame)

lemma task_body_reframe:
  "task_body env seen i (reframe x c e, False, rst)
     = map_sum id (reframe3 x c) (task_body env seen' i (e, False, rst))"
proof (cases "deliver_timer env i e (status (tskhead e ! i))")
  case (Inl err)
  then show ?thesis by (simp add: task_body_no_frame deliver_timer_reframe)
next
  case (Inr a)
  obtain e2 ns2 where a: "a = (e2, ns2)" by (cases a)
  show ?thesis
  proof (cases "commit_status i e2 ns2 rst")
    case (Inl err)
    with Inr a show ?thesis
      by (simp add: task_body_no_frame deliver_timer_reframe commit_status_reframe)
  next
    case (Inr b)
    obtain e3 rst3 where b: "b = (e3, rst3)" by (cases b)
    from \<open>deliver_timer env i e (status (tskhead e ! i)) = Inr a\<close> a Inr b show ?thesis
      by (simp add: task_body_no_frame deliver_timer_reframe commit_status_reframe reframe3_def)
  qed
qed

lemma task_body_no_frame_got:
  "task_body env seen i (e, False, rst) = Inr (e', got', rst') \<Longrightarrow> \<not> got'"
  by (auto simp: task_body_no_frame split: prod.splits dest!: err_bind_Inr)

lemma check_rcvd_pkt_is_ok_spec:
  assumes "unat m \<le> 249"
  shows "check_rcvd_pkt_is_ok pk m nb = spec_validate (pkt pk) (unat nb) (unat m)"
proof (cases "pkt pk")
  case None
  then show ?thesis by (simp add: check_rcvd_pkt_is_ok_def spec_validate_def)
next
  case (Some q)
  show ?thesis
  proof (cases "len (header q) > m")
    case True
    then have "\<not> unat (len (header q)) \<le> unat m" by (simp add: word_less_nat_alt)
    with True Some show ?thesis by (simp add: check_rcvd_pkt_is_ok_def spec_validate_def)
  next
    case False
    then have le: "unat (len (header q)) \<le> unat m" by (simp add: word_less_nat_alt not_less)
    with assms have "6 + unat (len (header q)) < 256" by simp
    then have u: "unat (6 + len (header q)) = 6 + unat (len (header q))"
      by (simp add: unat_word_ariths)
    have "(6 + len (header q) = nb) \<longleftrightarrow> (unat (6 + len (header q)) = unat nb)"
      by (simp add: word_unat_eq_iff)
    with False Some le u show ?thesis
      by (simp add: check_rcvd_pkt_is_ok_def spec_validate_def get_pkt_len_def sizeof_Header_def)
  qed
qed

lemma task_loop_reframe:
  "task_loop env seen idxs (reframe x c e, False, rst)
     = map_sum id (reframe3 x c) (task_loop env seen' idxs (e, False, rst))"
proof (induction idxs arbitrary: e rst)
  case Nil
  show ?case by (simp add: reframe3_def)
next
  case (Cons i idxs)
  show ?case
  proof (cases "task_body env seen' i (e, False, rst)")
    case (Inl err)
    with task_body_reframe [of env seen i x c e rst seen'] show ?thesis by simp
  next
    case (Inr a)
    obtain e1 got1 rst1 where a: "a = (e1, got1, rst1)" by (cases a)
    from task_body_no_frame_got [OF Inr [unfolded a]] have g: "got1 = False" by simp
    from task_body_reframe [of env seen i x c e rst seen'] Inr a g
    have "task_body env seen i (reframe x c e, False, rst) = Inr (reframe x c e1, False, rst1)"
      by (simp add: reframe3_def)
    with Inr a g Cons.IH [of e1 rst1] show ?thesis by simp
  qed
qed

lemma eligible_reframe [simp]:
  "is_eligible_for_sleep (reframe x c e) = is_eligible_for_sleep e"
  by (simp add: is_eligible_for_sleep_def)

lemma reset_device_reframe:
  "reset_device env rst (reframe x c e) = reframe x c (reset_device env rst e)"
proof (cases "rst \<and> now env - last_device_reset e \<ge> MIN_DEVICE_RESET_DELAY")
  case True
  then show ?thesis by (simp add: reset_device_def) (simp add: reframe_def)
next
  case False
  then show ?thesis by (auto simp: reset_device_def)
qed

lemma sleep_if_idle_reframe:
  "sleep_if_idle (reframe x c e) = reframe x c (sleep_if_idle e)"
proof (cases "is_eligible_for_sleep e \<and> auto_sleep e")
  case True
  then show ?thesis by (simp add: sleep_if_idle_def) (simp add: reframe_def)
next
  case False
  then show ?thesis by (auto simp: sleep_if_idle_def)
qed

lemma tail_reframe:
  "sleep_if_idle (reset_device env rst (reframe x c e))
     = reframe x c (sleep_if_idle (reset_device env rst e))"
  by (simp only: reset_device_reframe sleep_if_idle_reframe)

lemma interrupts_on_reg:
  assumes "setInterrupt (funcs e)"
  shows "interrupts_on e = Inr (e\<lparr>interrupt_is_attached := True\<rparr>)"
proof (cases "interrupt_is_attached e")
  case True
  have "e\<lparr>interrupt_is_attached := interrupt_is_attached e\<rparr> = e" by simp
  with True have "e\<lparr>interrupt_is_attached := True\<rparr> = e" by simp
  with True show ?thesis by (simp add: interrupts_on_def)
next
  case False
  with assms show ?thesis by (simp add: interrupts_on_def)
qed

lemma interrupts_off_reg:
  assumes "resetInterrupt (funcs e)"
  shows "interrupts_off e = Inr (e\<lparr>interrupt_is_attached := False\<rparr>)"
proof (cases "interrupt_is_attached e")
  case False
  have "e\<lparr>interrupt_is_attached := interrupt_is_attached e\<rparr> = e" by simp
  with False have "e\<lparr>interrupt_is_attached := False\<rparr> = e" by simp
  with False show ?thesis by (simp add: interrupts_off_def)
next
  case True
  with assms show ?thesis by (simp add: interrupts_off_def)
qed

lemma pkt_update_same: "pkt pk = v \<Longrightarrow> pk\<lparr>pkt := v\<rparr> = pk"
  by (cases pk) simp

lemma scratch_packet_attached [simp]:
  "scratch_packet env (e\<lparr>interrupt_is_attached := v\<rparr>) = scratch_packet env e"
  by (simp add: scratch_packet_def)

lemma scratch_ready_attached [simp]:
  "scratch_ready env (e\<lparr>interrupt_is_attached := v\<rparr>) = scratch_ready env e"
  by (simp add: scratch_ready_def)

lemma received_scratch_attached [simp]:
  "received_scratch env (e\<lparr>interrupt_is_attached := v\<rparr>) = received_scratch env e"
  by (simp add: received_scratch_def)

lemma call_deviceReceive_eq:
  "call_deviceReceive env (initialize_recpkt_if_necessary env e) =
     (if scratch_ready env e
      then Inr (e\<lparr>recpkt := Some (received_scratch env e)\<rparr>, rx_nb env)
      else Inl NullDeref)"
proof (cases "recpkt e")
  case None
  then show ?thesis
    by (cases "heap_pkt env")
       (simp_all add: call_deviceReceive_def initialize_recpkt_if_necessary_def
          received_scratch_def scratch_ready_def scratch_packet_def)
next
  case (Some pk)
  have "e\<lparr>recpkt := recpkt e\<rparr> = e" by simp
  with Some have same: "e\<lparr>recpkt := Some pk\<rparr> = e" by simp
  from Some show ?thesis
    by (cases "pkt pk")
       (simp_all add: call_deviceReceive_def initialize_recpkt_if_necessary_def
          received_scratch_def scratch_ready_def scratch_packet_def same)
qed

lemma receive_frame_eq:
  "receive_frame env e =
     (if scratch_ready env e
      then Inr (e\<lparr>recpkt := Some (received_scratch env e)\<rparr>,
                check_rcvd_pkt_is_ok (received_scratch env e) (max_payload_len e) (rx_nb env))
      else Inl NullDeref)"
  by (simp add: receive_frame_def Let_def call_deviceReceive_eq)

lemma drain_eq:
  assumes s: "setInterrupt (funcs e)" and r: "resetInterrupt (funcs e)"
    and sr: "scratch_ready env e"
  shows "drain env True e =
     Inr (e\<lparr>interrupt_is_attached := True, recpkt := Some (received_scratch env e),
             interrupted := False\<rparr>,
          check_rcvd_pkt_is_ok (received_scratch env e) (max_payload_len e) (rx_nb env))"
proof -
  let ?b = "e\<lparr>interrupt_is_attached := False, recpkt := Some (received_scratch env e),
              interrupted := False\<rparr>"
  have fb: "setInterrupt (funcs ?b)" using s by simp
  have "drain env True e = err_bind (interrupts_on ?b)
     (\<lambda>e'. Inr (e', check_rcvd_pkt_is_ok (received_scratch env e) (max_payload_len e) (rx_nb env)))"
    using sr by (simp add: drain_def interrupts_off_reg [OF r] receive_frame_eq)
  also have "\<dots> = Inr (?b\<lparr>interrupt_is_attached := True\<rparr>,
      check_rcvd_pkt_is_ok (received_scratch env e) (max_payload_len e) (rx_nb env))"
    by (simp only: interrupts_on_reg [OF fb] err_bind_simps)
  finally show ?thesis by simp
qed

lemma drain_null:
  assumes r: "resetInterrupt (funcs e)" and sr: "\<not> scratch_ready env e"
  shows "drain env True e = Inl NullDeref"
  using sr by (simp add: drain_def interrupts_off_reg [OF r] receive_frame_eq)

lemma do_events_null_scratch:
  assumes reg: "deviceInit (funcs e)" "setInterrupt (funcs e)" "resetInterrupt (funcs e)"
      "deviceReceive (funcs e)"
    and want: "list_ex evtsub_pktrcvd (tskhead e)"
    and irq: "interrupted e"
    and sr: "\<not> scratch_ready env e"
  shows "do_events env e = Inl NullDeref"
  using reg want irq sr
  by (simp add: do_events_def Let_def interrupts_on_reg drain_null)

lemma do_events_invalid_frame:
  assumes reg: "deviceInit (funcs e)" "setInterrupt (funcs e)" "resetInterrupt (funcs e)"
      "deviceReceive (funcs e)"
    and want: "list_ex evtsub_pktrcvd (tskhead e)"
    and irq: "interrupted e"
    and sr: "scratch_ready env e"
    and bad: "\<not> check_rcvd_pkt_is_ok (received_scratch env e) (max_payload_len e) (rx_nb env)"
  shows "do_events env e =
     map_sum id (reframe (Some (received_scratch env e)) (cache_pktids e))
       (do_events env (e\<lparr>interrupted := False\<rparr>))"
proof -
  let ?X = "Some (received_scratch env e)" and ?C = "cache_pktids e"
  let ?eb = "e\<lparr>interrupted := False, interrupt_is_attached := True\<rparr>"
  let ?n = "length (tskhead e)"
  let ?tail = "\<lambda>(e, got_a_pkt, device_needs_reset).
                 Inr (sleep_if_idle (reset_device env device_needs_reset e)) :: error + RFLink"
  have e2: "e\<lparr>interrupt_is_attached := True, recpkt := ?X, interrupted := False\<rparr>
      = reframe ?X ?C ?eb"
    by (simp add: reframe_def)
  have L: "do_events env e
      = err_bind (task_loop env False [0..<?n] (reframe ?X ?C ?eb, False, False)) ?tail"
    using reg want irq sr bad
    by (simp add: do_events_def Let_def interrupts_on_reg drain_eq e2)
  have R: "do_events env (e\<lparr>interrupted := False\<rparr>)
      = err_bind (task_loop env False [0..<?n] (?eb, False, False)) ?tail"
    using reg want
    by (simp add: do_events_def Let_def interrupts_on_reg)
  show ?thesis
  proof (cases "task_loop env False [0..<?n] (?eb, False, False)")
    case (Inl err)
    with L R task_loop_reframe [of env False "[0..<?n]" ?X ?C ?eb False False]
    show ?thesis by simp
  next
    case (Inr a)
    obtain e4 got4 rst4 where a: "a = (e4, got4, rst4)" by (cases a)
    from Inr a L R task_loop_reframe [of env False "[0..<?n]" ?X ?C ?eb False False]
    show ?thesis by (simp add: reframe3_def tail_reframe)
  qed
qed

lemma transmit_funcs: "transmit i e = Inr e1 \<Longrightarrow> funcs e1 = funcs e"
  by (auto simp: transmit_def Let_def split_beta split: if_splits)

lemma schedule_next_funcs:
  assumes "schedule_next env i e1 = Inr (e', st)"
  shows "funcs e' = funcs e1"
proof (cases "send_schedule_pos (tskhead e1 ! i) + 1 < nb_send_schedules (tskhead e1 ! i)")
  case True
  show ?thesis
  proof (cases "sched_at (send_schedule_ptr (tskhead e1 ! i)) (send_schedule_pos (tskhead e1 ! i) + 1)")
    case (Inl x)
    with assms True show ?thesis by (simp add: schedule_next_def Let_def)
  next
    case (Inr d)
    with assms True show ?thesis by (auto simp: schedule_next_def Let_def)
  qed
next
  case False
  with assms show ?thesis by (auto simp: schedule_next_def Let_def)
qed

lemma tev_wakeup_frame:
  assumes r: "tev_wakeup env i e = Inr (e', st)"
  shows "funcs e' = funcs e" "\<forall>k. k \<noteq> i \<longrightarrow> tskhead e' ! k = tskhead e ! k"
proof -
  let ?t = "tskhead e ! i"
  have "funcs e' = funcs e \<and> (\<exists>t'. tskhead e' = (tskhead e)[i := t'])"
  proof (cases "status ?t")
    case ST_SEND
    let ?tx = "\<not> need_ack ?t \<or> uint (send_schedule_pos ?t) < uint (nb_send_schedules ?t) - 1"
    from r ST_SEND have b: "err_bind (if ?tx then transmit i e else Inr e) (schedule_next env i) = Inr (e', st)"
      by (simp add: tev_wakeup_def Let_def)
    then obtain e1 where e1: "(if ?tx then transmit i e else Inr e) = Inr e1"
      and sn: "schedule_next env i e1 = Inr (e', st)"
      by (cases "if ?tx then transmit i e else Inr e") simp_all
    have "funcs e1 = funcs e \<and> (\<exists>t1. tskhead e1 = (tskhead e)[i := t1])"
    proof (cases ?tx)
      case True
      with e1 have t: "transmit i e = Inr e1" by simp
      from transmit_shape [OF t] transmit_funcs [OF t] show ?thesis by blast
    next
      case False
      with e1 have "e1 = e" by simp
      then have "tskhead e1 = (tskhead e)[i := ?t]" "funcs e1 = funcs e" by simp_all
      then show ?thesis by blast
    qed
    then obtain t1 where t1: "tskhead e1 = (tskhead e)[i := t1]" "funcs e1 = funcs e" by blast
    from schedule_next_shape [OF sn] obtain t2 where t2: "tskhead e' = (tskhead e1)[i := t2]"
      by blast
    from t2 t1 have "tskhead e' = (tskhead e)[i := t2]" by simp
    with schedule_next_funcs [OF sn] t1(2) show ?thesis by auto
  next
    case ST_NOTHING
    with r show ?thesis by (simp add: tev_wakeup_def Let_def)
  next
    case ST_FINISHED
    with r show ?thesis by (simp add: tev_wakeup_def Let_def)
  next
    case ST_SEND_DONE
    with r have "e' = e" by (simp add: tev_wakeup_def Let_def)
    then have "tskhead e' = (tskhead e)[i := ?t]" "funcs e' = funcs e" by simp_all
    then show ?thesis by blast
  next
    case ST_RECEIVE_DATA_RETRIEVED
    with r have "e' = e" by (simp add: tev_wakeup_def Let_def)
    then have "tskhead e' = (tskhead e)[i := ?t]" "funcs e' = funcs e" by simp_all
    then show ?thesis by blast
  next
    case ST_RECEIVE_TIMEDOUT
    with r have "e' = e" by (simp add: tev_wakeup_def Let_def)
    then have "tskhead e' = (tskhead e)[i := ?t]" "funcs e' = funcs e" by simp_all
    then show ?thesis by blast
  next
    case ST_RECEIVE_DATA_AVAILABLE
    with r have "err_bind (data_retrieved_post i e) (\<lambda>e. Inr (e, ST_RECEIVE_TIMEDOUT)) = Inr (e', st)"
      by (simp add: tev_wakeup_def Let_def)
    then have "data_retrieved_post i e = Inr e'"
      by (cases "data_retrieved_post i e"; simp)
    from data_retrieved_post_shape [OF this] obtain t' where
      "e' = e\<lparr>tskhead := (tskhead e)[i := t']\<rparr>" by blast
    then have "tskhead e' = (tskhead e)[i := t']" "funcs e' = funcs e" by simp_all
    then show ?thesis by blast
  next
    case ST_RECEIVE
    let ?t' = "?t\<lparr>evtsub_wakeup := True,
                  mtime_wakeup := mtime_ref ?t + DEFAULT_RECEIVE_TIMEOUT_DELAY\<rparr>"
    from r ST_RECEIVE have "e' = e\<lparr>tskhead := (tskhead e)[i := ?t']\<rparr>"
      by (simp_all add: tev_wakeup_def Let_def)
    then have "tskhead e' = (tskhead e)[i := ?t']" "funcs e' = funcs e" by simp_all
    then show ?thesis by blast
  qed
  then show "funcs e' = funcs e" "\<forall>k. k \<noteq> i \<longrightarrow> tskhead e' ! k = tskhead e ! k"
    by auto
qed

lemma tev_wakeup_total:
  assumes i: "i < length (tskhead e)" and rd: "timer_ready (tskhead e ! i)"
    and w: "evtsub_wakeup (tskhead e ! i)"
    and ds: "status (tskhead e ! i) = ST_SEND \<longrightarrow> deviceSend (funcs e)"
  shows "\<not> isl (tev_wakeup env i e)"
proof (cases "status (tskhead e ! i)")
  case ST_SEND
  with rd ds have "unat (nb_send_schedules (tskhead e ! i)) = length (send_schedule_ptr (tskhead e ! i))"
    "send_schedule_pos (tskhead e ! i) < nb_send_schedules (tskhead e ! i)" "deviceSend (funcs e)"
    by (simp_all add: timer_ready_def)
  from tev_wakeup_send [OF i refl ST_SEND this(3,1,2), of env] show ?thesis by auto
next
  case ST_RECEIVE_DATA_AVAILABLE
  with rd obtain q where "pkt (pktkeeper (tskhead e ! i)) = Some q"
    by (auto simp: timer_ready_def)
  with ST_RECEIVE_DATA_AVAILABLE show ?thesis
    by (simp add: tev_wakeup_def Let_def data_retrieved_post_def reduce_packet_to_its_header_def)
qed (use rd w in \<open>simp_all add: tev_wakeup_def Let_def timer_ready_def\<close>)

lemma timer_ready_inv: "timer_ready tsk \<Longrightarrow> task_inv tsk"
  by (simp add: timer_ready_def)

lemma deliver_timer_total:
  assumes i: "i < length (tskhead e)" and rd: "timer_ready (tskhead e ! i)"
    and ds: "deviceSend (funcs e)"
  shows "\<not> isl (deliver_timer env i e (status (tskhead e ! i)))"
proof (cases "evtsub_wakeup (tskhead e ! i) \<and> sint (now env - mtime_wakeup (tskhead e ! i)) \<ge> 0")
  case True
  then have "deliver_timer env i e (status (tskhead e ! i)) = tev_wakeup env i e"
    by (simp add: deliver_timer_def Let_def)
  with tev_wakeup_total [OF i rd, of env] True ds show ?thesis by simp
next
  case False
  then have "deliver_timer env i e (status (tskhead e ! i)) = Inr (e, status (tskhead e ! i))"
    by (auto simp: deliver_timer_def Let_def)
  then show ?thesis by simp
qed

lemma deliver_timer_frame:
  assumes "deliver_timer env i e ns = Inr (e2, ns2)"
  shows "funcs e2 = funcs e" "\<forall>k. k \<noteq> i \<longrightarrow> tskhead e2 ! k = tskhead e ! k"
proof -
  let ?c = "evtsub_wakeup (tskhead e ! i) \<and> ns = status (tskhead e ! i)
              \<and> sint (now env - mtime_wakeup (tskhead e ! i)) \<ge> 0"
  have "funcs e2 = funcs e \<and> (\<forall>k. k \<noteq> i \<longrightarrow> tskhead e2 ! k = tskhead e ! k)"
  proof (cases ?c)
    case True
    with assms have "tev_wakeup env i e = Inr (e2, ns2)" by (simp add: deliver_timer_def Let_def)
    from tev_wakeup_frame [OF this] show ?thesis by blast
  next
    case False
    with assms have "e2 = e" by (auto simp: deliver_timer_def Let_def)
    then show ?thesis by simp
  qed
  then show "funcs e2 = funcs e" "\<forall>k. k \<noteq> i \<longrightarrow> tskhead e2 ! k = tskhead e ! k" by blast+
qed

lemma commit_status_total:
  assumes "task_inv ((tskhead e ! i)\<lparr>status := ns\<rparr>)"
  shows "\<not> isl (commit_status i e ns rst)"
  using assms by (auto simp: commit_status_def Let_def task_inv_def)

lemma commit_status_frame:
  assumes "commit_status i e ns rst = Inr (e3, rst3)"
  shows "funcs e3 = funcs e" "\<forall>k. k \<noteq> i \<longrightarrow> tskhead e3 ! k = tskhead e ! k"
proof -
  have "funcs e3 = funcs e \<and> (\<forall>k. k \<noteq> i \<longrightarrow> tskhead e3 ! k = tskhead e ! k)"
  proof (cases "ns = ST_FINISHED")
    case True
    with assms have "e3 = task_destroy i e"
      by (simp add: commit_status_def Let_def split: if_splits)
    then show ?thesis by (simp add: task_destroy_def Let_def)
  next
    case False
    with assms have "e3 = e\<lparr>tskhead := (tskhead e)[i := (tskhead e ! i)\<lparr>status := ns\<rparr>]\<rparr>"
      by (simp add: commit_status_def Let_def split: if_splits)
    then show ?thesis by simp
  qed
  then show "funcs e3 = funcs e" "\<forall>k. k \<noteq> i \<longrightarrow> tskhead e3 ! k = tskhead e ! k" by blast+
qed

lemma task_body_timer_total:
  assumes inv: "pool_inv e" and i: "i < length (tskhead e)"
    and rd: "timer_ready (tskhead e ! i)" and ds: "deviceSend (funcs e)"
  obtains e' rst' where "task_body env seen i (e, False, rst) = Inr (e', False, rst')"
    "pool_inv e'" "funcs e' = funcs e" "length (tskhead e') = length (tskhead e)"
    "\<forall>k. k \<noteq> i \<longrightarrow> tskhead e' ! k = tskhead e ! k"
proof -
  let ?t = "tskhead e ! i"
  from deliver_timer_total [OF i rd ds, of env] obtain x where
    d2: "deliver_timer env i e (status ?t) = Inr x"
    by (cases "deliver_timer env i e (status ?t)") simp_all
  obtain e2 ns2 where x: "x = (e2, ns2)" by (cases x)
  have "task_inv (?t\<lparr>status := status ?t\<rparr>)" using rd by (simp add: timer_ready_def)
  note D2 = deliver_timer_inv [OF inv i this d2 [unfolded x]]
  note F2 = deliver_timer_frame [OF d2 [unfolded x]]
  from D2(2) i have i2: "i < length (tskhead e2)" by simp
  from commit_status_total [OF D2(3), of rst] obtain y where
    d3: "commit_status i e2 ns2 rst = Inr y"
    by (cases "commit_status i e2 ns2 rst") simp_all
  obtain e3 rst3 where y: "y = (e3, rst3)" by (cases y)
  note D3 = commit_status_inv [OF D2(1) i2 D2(3) d3 [unfolded y]]
  note F3 = commit_status_frame [OF d3 [unfolded y]]
  have "task_body env seen i (e, False, rst) = Inr (e3, False, rst3)"
    by (simp add: task_body_no_frame d2 x d3 y)
  moreover have "funcs e3 = funcs e" using F2(1) F3(1) by simp
  moreover have "length (tskhead e3) = length (tskhead e)" using D2(2) D3(2) by simp
  moreover have "\<forall>k. k \<noteq> i \<longrightarrow> tskhead e3 ! k = tskhead e ! k" using F2(2) F3(2) by simp
  ultimately show thesis using D3(1) that by blast
qed

lemma task_loop_timer_total:
  assumes "pool_inv e" "deviceSend (funcs e)" "distinct idxs"
    "\<forall>i \<in> set idxs. i < length (tskhead e) \<and> timer_ready (tskhead e ! i)"
  shows "\<not> isl (task_loop env seen idxs (e, False, rst))"
  using assms
proof (induction idxs arbitrary: e rst)
  case Nil
  then show ?case by simp
next
  case (Cons i idxs)
  from Cons.prems(4) have i: "i < length (tskhead e)" and rd: "timer_ready (tskhead e ! i)"
    by simp_all
  obtain e' rst' where b: "task_body env seen i (e, False, rst) = Inr (e', False, rst')"
    and B: "pool_inv e'" "funcs e' = funcs e" "length (tskhead e') = length (tskhead e)"
    "\<forall>k. k \<noteq> i \<longrightarrow> tskhead e' ! k = tskhead e ! k"
    by (rule task_body_timer_total [OF Cons.prems(1) i rd Cons.prems(2)])
  from Cons.prems(3) have ni: "i \<notin> set idxs" and d: "distinct idxs" by simp_all
  have "\<forall>j \<in> set idxs. j < length (tskhead e') \<and> timer_ready (tskhead e' ! j)"
  proof
    fix j assume j: "j \<in> set idxs"
    with ni have "j \<noteq> i" by auto
    with B(4) have "tskhead e' ! j = tskhead e ! j" by simp
    with Cons.prems(4) j B(3) show "j < length (tskhead e') \<and> timer_ready (tskhead e' ! j)"
      by simp
  qed
  from Cons.IH [OF B(1) _ d this, of rst'] Cons.prems(2) B(2) b show ?case by simp
qed

lemma do_events_timer_total:
  assumes reg: "setInterrupt (funcs e)"
    and ds: "deviceSend (funcs e)"
    and rd: "\<forall>tsk \<in> set (tskhead e). timer_ready tsk"
    and ni: "\<not> interrupted e"
  shows "\<not> isl (do_events env e)"
proof (cases "deviceInit (funcs e)")
  case False
  then show ?thesis by (simp add: do_events_def)
next
  case True
  let ?w = "list_ex evtsub_pktrcvd (tskhead e) \<and> deviceReceive (funcs e)"
  let ?e1 = "if ?w then e\<lparr>interrupt_is_attached := True\<rparr> else e"
  let ?tail = "\<lambda>(e, got_a_pkt, device_needs_reset).
                 Inr (sleep_if_idle (reset_device env device_needs_reset e)) :: error + RFLink"
  have 1: "(if ?w then interrupts_on e else Inr e) = Inr ?e1"
    by (simp add: interrupts_on_reg [OF reg])
  have t1: "tskhead ?e1 = tskhead e" "funcs ?e1 = funcs e" "interrupted ?e1 = interrupted e"
    by simp_all
  have L: "do_events env e
      = err_bind (task_loop env False [0..<length (tskhead e)] (?e1, False, False)) ?tail"
    using True ni unfolding do_events_def Let_def 1
    by (simp add: t1)
  have p: "pool_inv ?e1"
    using rd by (auto simp: pool_inv_def list_all_iff timer_ready_def)
  have "\<forall>i \<in> set [0..<length (tskhead e)]. i < length (tskhead ?e1) \<and> timer_ready (tskhead ?e1 ! i)"
    using rd by (simp add: t1)
  from task_loop_timer_total [OF p _ _ this, of env False False] ds
  have "\<not> isl (task_loop env False [0..<length (tskhead e)] (?e1, False, False))"
    by (simp add: t1)
  then show ?thesis
    unfolding L
    by (cases "task_loop env False [0..<length (tskhead e)] (?e1, False, False)") auto
qed

lemma task_body_idle:
  assumes i: "i < length (tskhead e)" and rd: "timer_ready (tskhead e ! i)"
    and nd: "\<not> timer_due env (tskhead e ! i)"
  shows "task_body env seen i (e, False, rst) = Inr (e, False, rst)"
proof -
  let ?t = "tskhead e ! i"
  have d: "deliver_timer env i e (status ?t) = Inr (e, status ?t)"
    using nd by (auto simp: deliver_timer_def timer_due_def Let_def)
  have u: "e\<lparr>tskhead := (tskhead e)[i := ?t\<lparr>status := status ?t\<rparr>]\<rparr> = e"
    by simp
  have c: "commit_status i e (status ?t) rst = Inr (e, rst)"
    using rd unfolding commit_status_def Let_def u
    by (auto simp: timer_ready_def task_inv_def)
  show ?thesis by (simp add: task_body_no_frame d c)
qed

lemma task_loop_idle:
  assumes "\<forall>i \<in> set idxs. i < length (tskhead e) \<and> timer_ready (tskhead e ! i)
             \<and> \<not> timer_due env (tskhead e ! i)"
  shows "task_loop env seen idxs (e, False, rst) = Inr (e, False, rst)"
  using assms
proof (induction idxs)
  case Nil
  then show ?case by simp
next
  case (Cons i idxs)
  then show ?case by (simp add: task_body_idle)
qed

lemma do_events_idle:
  assumes reg: "deviceInit (funcs e)" "setInterrupt (funcs e)"
    and want: "list_ex evtsub_pktrcvd (tskhead e)" "deviceReceive (funcs e)"
    and rd: "\<forall>tsk \<in> set (tskhead e). timer_ready tsk \<and> \<not> timer_due env tsk"
    and ni: "\<not> interrupted e"
  shows "do_events env e = Inr (sleep_if_idle (e\<lparr>interrupt_is_attached := True\<rparr>))"
proof -
  let ?e1 = "e\<lparr>interrupt_is_attached := True\<rparr>"
  have "\<forall>i \<in> set [0..<length (tskhead e)]. i < length (tskhead ?e1)
          \<and> timer_ready (tskhead ?e1 ! i) \<and> \<not> timer_due env (tskhead ?e1 ! i)"
    using rd by simp
  from task_loop_idle [OF this, of False False]
  have l: "task_loop env False [0..<length (tskhead e)] (?e1, False, False)
              = Inr (?e1, False, False)" .
  show ?thesis
    using reg want ni
    by (simp add: do_events_def Let_def interrupts_on_reg l reset_device_def)
qed


lemma receiver_facts:
  "deviceInit (funcs (interrupt_func receiver_state))"
  "setInterrupt (funcs (interrupt_func receiver_state))"
  "resetInterrupt (funcs (interrupt_func receiver_state))"
  "deviceReceive (funcs (interrupt_func receiver_state))"
  "deviceSend (funcs (interrupt_func receiver_state))"
  "list_ex evtsub_pktrcvd (tskhead (interrupt_func receiver_state))"
  "interrupted (interrupt_func receiver_state)"
  "unat (max_payload_len (interrupt_func receiver_state)) \<le> 249"
  "\<not> spec_validate (pkt (received_scratch truncated_env (interrupt_func receiver_state)))
       (unat (rx_nb truncated_env)) (unat (max_payload_len (interrupt_func receiver_state)))"
  "list_all (\<lambda>tsk. timer_ready tsk \<and> \<not> timer_due truncated_env tsk)
     (tskhead (interrupt_func receiver_state))"
  "scratch_ready truncated_env (interrupt_func receiver_state)"
  by code_simp+

lemma starved_facts:
  "deviceInit (funcs (interrupt_func starved_receiver))"
  "setInterrupt (funcs (interrupt_func starved_receiver))"
  "resetInterrupt (funcs (interrupt_func starved_receiver))"
  "deviceReceive (funcs (interrupt_func starved_receiver))"
  "list_ex evtsub_pktrcvd (tskhead (interrupt_func starved_receiver))"
  "interrupted (interrupt_func starved_receiver)"
  "unat (max_payload_len (interrupt_func starved_receiver)) \<le> 249"
  "\<not> scratch_ready intact_env (interrupt_func starved_receiver)"
  by code_simp+



subsection \<open>Duplicates of a received frame\<close>

lemma tev_received_duplicate:
  assumes h: "get_header_ptr pk = Some h"
    and th: "get_header_ptr (pktkeeper (tskhead e ! i)) = Some th"
    and same: "pktid th = pktid h" "src th = src h"
    and data: "snd (from_flags (get_flags pk)) AND FLAG_ACK = 0"
  shows "status (tskhead e ! i) = ST_RECEIVE_DATA_AVAILABLE \<Longrightarrow>
           tev_received env i pk seen False e = Inr (e, ST_RECEIVE_DATA_AVAILABLE, True)"
    and "status (tskhead e ! i) = ST_RECEIVE_DATA_RETRIEVED \<Longrightarrow>
           tev_received env i pk seen False e
             = map_sum id (\<lambda>e'. (e', ST_RECEIVE_DATA_RETRIEVED, True)) (send_ack env i e)"
proof -
  show "tev_received env i pk seen False e = Inr (e, ST_RECEIVE_DATA_AVAILABLE, True)"
    if "status (tskhead e ! i) = ST_RECEIVE_DATA_AVAILABLE"
    using that h th same data by (simp add: tev_received_def Let_def split_beta)
  show "tev_received env i pk seen False e
             = map_sum id (\<lambda>e'. (e', ST_RECEIVE_DATA_RETRIEVED, True)) (send_ack env i e)"
    if "status (tskhead e ! i) = ST_RECEIVE_DATA_RETRIEVED"
    using that h th same data
    by (cases "send_ack env i e") (simp_all add: tev_received_def Let_def split_beta)
qed

lemma data_retrieve_other:
  assumes "status (tskhead e ! i) \<noteq> ST_RECEIVE_DATA_AVAILABLE"
  shows "data_retrieve env (Some i) n ws e = Inr (e, status (tskhead e ! i), None, None)"
  using assms by (simp add: data_retrieve_def Let_def)

lemma data_retrieve_available:
  assumes i: "i < length (tskhead e)"
    and st: "status (tskhead e ! i) = ST_RECEIVE_DATA_AVAILABLE"
    and q: "pkt (pktkeeper (tskhead e ! i)) = Some q"
  shows "data_retrieve env (Some i) n ws e
     = map_sum id
         (\<lambda>e'. (e', status (tskhead e' ! i),
                 Some (take (unat (if len (header q) > n then n else len (header q))) (data q)),
                 if ws then Some (src (header q)) else None))
         (send_ack env i
            (e\<lparr>tskhead := (tskhead e)
                 [i := (tskhead e ! i)
                    \<lparr>pktkeeper := (pktkeeper (tskhead e ! i))
                        \<lparr>pkt := Some \<lparr> header = (header q)\<lparr>len := 0\<rparr>, data = [] \<rparr>\<rparr>,
                     evtsub_wakeup := True,
                     mtime_wakeup := mtime_ref (tskhead e ! i) + receive_purge_delay e,
                     status := ST_RECEIVE_DATA_RETRIEVED\<rparr>]\<rparr>))"
    (is "_ = map_sum id ?f (send_ack env i ?e2)")
proof -
  have c: "copy_data (pktkeeper (tskhead e ! i)) n
      = Some (take (unat (if len (header q) > n then n else len (header q))) (data q))"
    using q by (simp add: copy_data_def Let_def)
  have s: "(if ws then (case get_header_ptr (pktkeeper (tskhead e ! i)) of
                          None \<Rightarrow> Inl NullDeref | Some h \<Rightarrow> Inr (Some (src h)))
            else Inr None) = Inr (if ws then Some (src (header q)) else None)"
    using q by (simp add: get_header_ptr_def)
  have p: "data_retrieved_post i e
      = Inr (e\<lparr>tskhead := (tskhead e)
                 [i := (tskhead e ! i)
                    \<lparr>pktkeeper := (pktkeeper (tskhead e ! i))
                        \<lparr>pkt := Some \<lparr> header = (header q)\<lparr>len := 0\<rparr>, data = [] \<rparr>\<rparr>,
                     evtsub_wakeup := True,
                     mtime_wakeup := mtime_ref (tskhead e ! i) + receive_purge_delay e\<rparr>]\<rparr>)"
    using q by (simp add: data_retrieved_post_def reduce_packet_to_its_header_def Let_def)
  show ?thesis
    unfolding data_retrieve_def Let_def option.case c s p err_bind_simps
    using i st by (cases "send_ack env i ?e2") (simp_all)
qed

lemma opt_sin_iff: "snd (from_flags fl) AND FLAG_SIN \<noteq> 0 \<longleftrightarrow> fl AND FLAG_SIN \<noteq> 0"
proof -
  have "(fl AND 0x0F) AND 1 = fl AND (1::byte)"
    by (simp add: and.assoc)
  then show ?thesis by (simp add: from_flags_def FLAG_SIN_def)
qed

lemma send_ack_creates:
  assumes q: "pkt (pktkeeper (tskhead e ! i)) = Some q"
    and sin: "flags (header q) AND FLAG_SIN \<noteq> 0"
    and reg: "deviceInit (funcs e)" "deviceSend (funcs e)"
    and room: "\<not> task_count e \<ge> max_task_count e"
    and ff: "first_free (tskhead e) 0 = Some j"
    and empty: "pkt (pktkeeper (tskhead e ! j)) = None"
  obtains e' where "send_ack env i e = Inr e'" "dev e' = dev e"
    "length (tskhead e') = length (tskhead e)"
    "\<forall>k. k \<noteq> j \<longrightarrow> tskhead e' ! k = tskhead e ! k"
    "status (tskhead e' ! j) = ST_SEND" "is_an_ack (tskhead e' ! j)"
    "send_schedule_ptr (tskhead e' ! j) = snd_repack_sched"
    "pkt (pktkeeper (tskhead e' ! j))
       = Some \<lparr> header = \<lparr> dst = src (header q), src = device_addr e,
                            flags = to_flags (fst (from_flags (flags (header q)))) FLAG_ACK,
                            pktid = pktid (header q), len = 0 \<rparr>,
                 data = [] \<rparr>"
proof -
  let ?h = "\<lparr> dst = src (header q), src = device_addr e,
              flags = to_flags (fst (from_flags (flags (header q)))) FLAG_ACK,
              pktid = pktid (header q), len = 0 \<rparr>"
  from first_free_Some [OF ff] have j: "j < length (tskhead e)" by simp
  obtain e1 where tc: "task_create env ST_SEND e = (Some j, e1)"
    using room ff by (simp add: task_create_def Let_def)
  have e1: "e1 = e\<lparr>last_taskid := last_taskid e + 1,
      tskhead := (tskhead e)[j := (task_initialize (tskhead e ! j))
         \<lparr>taskid := last_taskid e + 1, status := ST_SEND, mtime_ref := now env,
                        is_an_ack := False, need_ack := False, has_received_ack := False,
                        unattended := False, nbsend := 0\<rparr>],
      task_count := task_count e + 1\<rparr>"
    using tc room ff by (simp add: task_create_def Let_def)
  have pj: "pkt (pktkeeper (tskhead e1 ! j)) = None"
    using j empty by (simp add: e1 task_initialize_def)
  have pr: "prepare_for_sending (pktkeeper (tskhead e1 ! j)) (max_payload_len e1) ?h None
      = Inr ((pktkeeper (tskhead e1 ! j))\<lparr>pkt := Some \<lparr> header = ?h, data = [] \<rparr>\<rparr>)"
    using pj by (simp add: prepare_for_sending_def Let_def)
  let ?e' = "e1\<lparr>tskhead := (tskhead e1)
                [j := (tskhead e1 ! j)\<lparr>evtsub_wakeup := True, send_schedule_ptr := snd_repack_sched,
                        nb_send_schedules := snd_repack_sched_len, send_schedule_pos := 0,
                        mtime_wakeup := mtime_ref (tskhead e1 ! j), is_an_ack := True,
                        unattended := True,
                        pktkeeper := (pktkeeper (tskhead e1 ! j))
                           \<lparr>pkt := Some \<lparr> header = ?h, data = [] \<rparr>\<rparr>\<rparr>]\<rparr>"
  have n: "send_ack_noblock env ?h e = Inr (?e', ERR_TASK_CREATED_OK, Some (taskid (tskhead e1 ! j)))"
    using send_ack_noblock_created [OF _ reg tc, of ?h] by (simp add: pr)
  have s: "snd (from_flags (get_flags (pktkeeper (tskhead e ! i)))) AND FLAG_SIN \<noteq> 0"
    using q sin by (simp add: opt_sin_iff get_flags_def)
  have a: "send_ack env i e = Inr ?e'"
    using s q n by (simp add: send_ack_def Let_def split_beta get_header_ptr_def get_flags_def)
  have j1: "j < length (tskhead e1)" using j by (simp add: e1)
  show thesis
  proof (rule that [OF a])
    show "dev ?e' = dev e" by (simp add: e1)
    show "length (tskhead ?e') = length (tskhead e)" by (simp add: e1)
    show "\<forall>k. k \<noteq> j \<longrightarrow> tskhead ?e' ! k = tskhead e ! k" by (simp add: e1)
    show "status (tskhead ?e' ! j) = ST_SEND" using j by (simp add: e1)
    show "is_an_ack (tskhead ?e' ! j)" using j1 by simp
    show "send_schedule_ptr (tskhead ?e' ! j) = snd_repack_sched" using j1 by simp
    show "pkt (pktkeeper (tskhead ?e' ! j)) = Some \<lparr> header = ?h, data = [] \<rparr>"
      using j1 by simp
  qed
qed


lemma arrived_once_facts:
  "0 < length (tskhead arrived_once)"
  "get_header_ptr duplicate_frame = Some data_frame"
  "pkt (pktkeeper (tskhead arrived_once ! 0))
     = Some \<lparr> header = data_frame, data = [104, 105, 0] \<rparr>"
  "pktid (header \<lparr> header = data_frame, data = [104, 105, 0] \<rparr>) = pktid data_frame"
  "src (header \<lparr> header = data_frame, data = [104, 105, 0] \<rparr>) = src data_frame"
  "flags data_frame AND FLAG_ACK = 0"
  "status (tskhead arrived_once ! 0) = ST_RECEIVE_DATA_AVAILABLE"
  by code_simp+

lemma retrieved_facts:
  "0 < length (tskhead retrieved_after_two)"
  "pkt (pktkeeper (tskhead retrieved_after_two ! 0))
     = Some \<lparr> header = data_frame\<lparr>len := 0\<rparr>, data = [] \<rparr>"
  "pktid (header \<lparr> header = data_frame\<lparr>len := 0\<rparr>, data = [] \<rparr>) = pktid data_frame"
  "src (header \<lparr> header = data_frame\<lparr>len := 0\<rparr>, data = [] \<rparr>) = src data_frame"
  "status (tskhead retrieved_after_two ! 0) = ST_RECEIVE_DATA_RETRIEVED"
  "flags (header \<lparr> header = data_frame\<lparr>len := 0\<rparr>, data = [] \<rparr>) AND FLAG_SIN \<noteq> 0"
  "deviceInit (funcs retrieved_after_two)"
  "deviceSend (funcs retrieved_after_two)"
  "task_count retrieved_after_two < max_task_count retrieved_after_two"
  "first_free (tskhead retrieved_after_two) 0 = Some 2"
  "pkt (pktkeeper (tskhead retrieved_after_two ! 2)) = None"
  "device_addr retrieved_after_two = 0x5E"
  by code_simp+



subsection \<open>The schedules of a sending task\<close>

lemma transmit_explicit:
  assumes "deviceSend (funcs e)"
  shows "transmit i e =
     Inr (e\<lparr>tskhead := (tskhead e)
              [i := (tskhead e ! i)
                 \<lparr>nbsend := nbsend (tskhead e ! i) + 1,
                  last_retcode := send_result (dev e) (length (tx_log (dev e))),
                  pktkeeper :=
                    set_flags
                      (to_flags
                         (if \<not> is_an_ack (tskhead e ! i)
                          then fst (from_flags (get_flags (pktkeeper (tskhead e ! i)))) + 1
                          else fst (from_flags (get_flags (pktkeeper (tskhead e ! i)))))
                         (get_flags (pktkeeper (tskhead e ! i))))
                      (pktkeeper (tskhead e ! i))\<rparr>],
            dev := (dev e)\<lparr>tx_log := tx_log (dev e)
                      @ [(pkt (pktkeeper (tskhead e ! i)),
                          get_pkt_len (pktkeeper (tskhead e ! i)))]\<rparr>\<rparr>)"
  using assms by (simp add: transmit_def Let_def split_beta)

lemma tev_wakeup_sending:
  assumes i: "i < length (tskhead e)" and st: "status (tskhead e ! i) = ST_SEND"
    and ds: "deviceSend (funcs e)"
    and nb: "unat (nb_send_schedules (tskhead e ! i)) = length (send_schedule_ptr (tskhead e ! i))"
    and pos: "send_schedule_pos (tskhead e ! i) < nb_send_schedules (tskhead e ! i)"
  obtains e' st' where
    "tev_wakeup env i e = Inr (e', st')"
    "length (tskhead e') = length (tskhead e)"
    "\<forall>k. k \<noteq> i \<longrightarrow> tskhead e' ! k = tskhead e ! k"
    "funcs e' = funcs e" "interrupted e' = interrupted e"
    "interrupt_is_attached e' = interrupt_is_attached e"
    "tx_log (dev e') =
       (if need_ack (tskhead e ! i)
           \<and> unat (send_schedule_pos (tskhead e ! i)) + 1 = length (send_schedule_ptr (tskhead e ! i))
        then tx_log (dev e)
        else tx_log (dev e) @ [(pkt (pktkeeper (tskhead e ! i)),
                               get_pkt_len (pktkeeper (tskhead e ! i)))])"
    "send_schedule_pos (tskhead e' ! i) = send_schedule_pos (tskhead e ! i) + 1"
    "status (tskhead e' ! i) = ST_SEND"
    "evtsub_wakeup (tskhead e' ! i) = evtsub_wakeup (tskhead e ! i)"
    "evtsub_pktrcvd (tskhead e' ! i) = evtsub_pktrcvd (tskhead e ! i)"
    "need_ack (tskhead e' ! i) = need_ack (tskhead e ! i)"
    "has_received_ack (tskhead e' ! i) = has_received_ack (tskhead e ! i)"
    "is_an_ack (tskhead e' ! i) = is_an_ack (tskhead e ! i)"
    "unattended (tskhead e' ! i) = unattended (tskhead e ! i)"
    "send_schedule_ptr (tskhead e' ! i) = send_schedule_ptr (tskhead e ! i)"
    "nb_send_schedules (tskhead e' ! i) = nb_send_schedules (tskhead e ! i)"
    "mtime_ref (tskhead e' ! i) = mtime_ref (tskhead e ! i)"
    "st' = (if unat (send_schedule_pos (tskhead e ! i)) + 1 < length (send_schedule_ptr (tskhead e ! i))
            then ST_SEND else ST_SEND_DONE)"
    "mtime_wakeup (tskhead e' ! i) =
       (if unat (send_schedule_pos (tskhead e ! i)) + 1 < length (send_schedule_ptr (tskhead e ! i))
        then mtime_ref (tskhead e ! i)
               + send_schedule_ptr (tskhead e ! i) ! (unat (send_schedule_pos (tskhead e ! i)) + 1)
        else if unattended (tskhead e ! i) then now env
        else now env + send_purge_delay e)"
proof -
  let ?t = "tskhead e ! i"
  let ?tx = "\<not> need_ack ?t \<or> uint (send_schedule_pos ?t) < uint (nb_send_schedules ?t) - 1"
  note b = byte_succ_less [OF pos]
  from pos have pl: "unat (send_schedule_pos ?t) < length (send_schedule_ptr ?t)"
    using nb by (simp add: word_less_nat_alt)
  have txc: "?tx \<longleftrightarrow> \<not> (need_ack ?t \<and> unat (send_schedule_pos ?t) + 1 = length (send_schedule_ptr ?t))"
  proof (cases "need_ack ?t")
    case True
    then show ?thesis using b(3) pl nb by simp linarith
  next
    case False
    then show ?thesis by simp
  qed
  define e1 where "e1 = (if ?tx then projr (transmit i e) else e)"
  have t1: "(if ?tx then transmit i e else Inr e) = Inr e1"
    by (simp add: e1_def transmit_explicit [OF ds])
  have f1: "length (tskhead e1) = length (tskhead e)"
    "\<forall>k. k \<noteq> i \<longrightarrow> tskhead e1 ! k = tskhead e ! k"
    "funcs e1 = funcs e" "interrupted e1 = interrupted e"
    "interrupt_is_attached e1 = interrupt_is_attached e"
    "send_purge_delay e1 = send_purge_delay e"
    by (simp_all add: e1_def transmit_explicit [OF ds])
  have l1: "tx_log (dev e1) =
       (if need_ack ?t \<and> unat (send_schedule_pos ?t) + 1 = length (send_schedule_ptr ?t)
        then tx_log (dev e)
        else tx_log (dev e) @ [(pkt (pktkeeper ?t), get_pkt_len (pktkeeper ?t))])"
    using txc by (simp add: e1_def transmit_explicit [OF ds])
  have g1: "send_schedule_pos (tskhead e1 ! i) = send_schedule_pos ?t"
    "status (tskhead e1 ! i) = status ?t"
    "evtsub_wakeup (tskhead e1 ! i) = evtsub_wakeup ?t"
    "evtsub_pktrcvd (tskhead e1 ! i) = evtsub_pktrcvd ?t"
    "need_ack (tskhead e1 ! i) = need_ack ?t"
    "has_received_ack (tskhead e1 ! i) = has_received_ack ?t"
    "is_an_ack (tskhead e1 ! i) = is_an_ack ?t"
    "unattended (tskhead e1 ! i) = unattended ?t"
    "send_schedule_ptr (tskhead e1 ! i) = send_schedule_ptr ?t"
    "nb_send_schedules (tskhead e1 ! i) = nb_send_schedules ?t"
    "mtime_ref (tskhead e1 ! i) = mtime_ref ?t"
    using i by (simp_all add: e1_def transmit_explicit [OF ds])
  have i1: "i < length (tskhead e1)" using i f1(1) by simp
  note nb1 = nb [folded g1(10) g1(9)] and pos1 = pos [folded g1(10) g1(1)]
  have w: "tev_wakeup env i e = schedule_next env i e1"
    unfolding tev_wakeup_ST_SEND [OF st] t1 by (simp add: err_bind_def)
  show thesis
  proof (cases "unat (send_schedule_pos ?t) + 1 < length (send_schedule_ptr ?t)")
    case True
    then have m1: "unat (send_schedule_pos (tskhead e1 ! i)) + 1
        < length (send_schedule_ptr (tskhead e1 ! i))"
      by (simp add: g1)
    note r = w [unfolded wakeup_advance_more [OF refl nb1 pos1 m1]]
    show ?thesis
      by (rule that [OF r]) (use True i1 in \<open>simp_all add: f1 l1 g1 st\<close>)
  next
    case False
    then have m1: "\<not> unat (send_schedule_pos (tskhead e1 ! i)) + 1
        < length (send_schedule_ptr (tskhead e1 ! i))"
      by (simp add: g1)
    note r = w [unfolded wakeup_advance_last [OF refl nb1 pos1 m1]]
    show ?thesis
      by (rule that [OF r]) (use False i1 in \<open>simp_all add: f1 l1 g1 st\<close>)
  qed
qed

lemma sending_task_nb:
  "sending_task tsk \<Longrightarrow> unat (nb_send_schedules tsk) = length (send_schedule_ptr tsk)"
  by (auto simp: sending_task_def snd_expack_sched_def snd_expack_sched_len_def snd_sched_def
        snd_sched_len_def snd_repack_sched_def snd_repack_sched_len_def)

lemma task_loop_append:
  "task_loop env seen (xs @ ys) st = err_bind (task_loop env seen xs st) (task_loop env seen ys)"
proof (induction xs arbitrary: st)
  case Nil
  then show ?case by simp
next
  case (Cons x xs)
  show ?case
    by (cases "task_body env seen x st") (simp_all add: Cons.IH)
qed

lemma task_loop_quiet:
  assumes "\<forall>k \<in> set idxs. k < length (tskhead e) \<and> quiet_task env (tskhead e ! k)"
  shows "task_loop env seen idxs (e, False, rst) = Inr (e, False, rst)"
  using assms task_loop_idle [of idxs e env seen rst] by (simp add: quiet_task_def)

lemma task_body_fire:
  assumes i: "i < length (tskhead e)" and s: "sending_task (tskhead e ! i)"
    and ds: "deviceSend (funcs e)"
    and due: "timer_due env (tskhead e ! i)"
  obtains e' where
    "task_body env seen i (e, False, rst) = Inr (e', False, rst)"
    "length (tskhead e') = length (tskhead e)"
    "\<forall>k. k \<noteq> i \<longrightarrow> tskhead e' ! k = tskhead e ! k"
    "funcs e' = funcs e" "interrupted e' = interrupted e"
    "interrupt_is_attached e' = interrupt_is_attached e"
    "tx_log (dev e') =
       (if need_ack (tskhead e ! i)
           \<and> unat (send_schedule_pos (tskhead e ! i)) + 1 = length (send_schedule_ptr (tskhead e ! i))
        then tx_log (dev e)
        else tx_log (dev e) @ [(pkt (pktkeeper (tskhead e ! i)),
                               get_pkt_len (pktkeeper (tskhead e ! i)))])"
    "send_schedule_pos (tskhead e' ! i) = send_schedule_pos (tskhead e ! i) + 1"
    "status (tskhead e' ! i) =
       (if unat (send_schedule_pos (tskhead e ! i)) + 1 < length (send_schedule_ptr (tskhead e ! i))
        then ST_SEND else ST_SEND_DONE)"
    "evtsub_wakeup (tskhead e' ! i)"
    "evtsub_pktrcvd (tskhead e' ! i) = evtsub_pktrcvd (tskhead e ! i)"
    "need_ack (tskhead e' ! i) = need_ack (tskhead e ! i)"
    "has_received_ack (tskhead e' ! i) = has_received_ack (tskhead e ! i)"
    "is_an_ack (tskhead e' ! i) = is_an_ack (tskhead e ! i)"
    "unattended (tskhead e' ! i) = unattended (tskhead e ! i)"
    "send_schedule_ptr (tskhead e' ! i) = send_schedule_ptr (tskhead e ! i)"
    "nb_send_schedules (tskhead e' ! i) = nb_send_schedules (tskhead e ! i)"
    "mtime_ref (tskhead e' ! i) = mtime_ref (tskhead e ! i)"
    "mtime_wakeup (tskhead e' ! i) =
       (if unat (send_schedule_pos (tskhead e ! i)) + 1 < length (send_schedule_ptr (tskhead e ! i))
        then mtime_ref (tskhead e ! i)
               + send_schedule_ptr (tskhead e ! i) ! (unat (send_schedule_pos (tskhead e ! i)) + 1)
        else if unattended (tskhead e ! i) then now env
        else now env + send_purge_delay e)"
proof -
  let ?t = "tskhead e ! i"
  from s have st: "status ?t = ST_SEND" and ew: "evtsub_wakeup ?t"
    and pos: "send_schedule_pos ?t < nb_send_schedules ?t"
    by (simp_all add: sending_task_def)
  note nb = sending_task_nb [OF s]
  obtain e2 st2 where w: "tev_wakeup env i e = Inr (e2, st2)"
    and W: "length (tskhead e2) = length (tskhead e)"
    "\<forall>k. k \<noteq> i \<longrightarrow> tskhead e2 ! k = tskhead e ! k"
    "funcs e2 = funcs e" "interrupted e2 = interrupted e"
    "interrupt_is_attached e2 = interrupt_is_attached e"
    "tx_log (dev e2) =
       (if need_ack ?t \<and> unat (send_schedule_pos ?t) + 1 = length (send_schedule_ptr ?t)
        then tx_log (dev e)
        else tx_log (dev e) @ [(pkt (pktkeeper ?t), get_pkt_len (pktkeeper ?t))])"
    "send_schedule_pos (tskhead e2 ! i) = send_schedule_pos ?t + 1"
    "status (tskhead e2 ! i) = ST_SEND"
    "evtsub_wakeup (tskhead e2 ! i) = evtsub_wakeup ?t"
    "evtsub_pktrcvd (tskhead e2 ! i) = evtsub_pktrcvd ?t"
    "need_ack (tskhead e2 ! i) = need_ack ?t"
    "has_received_ack (tskhead e2 ! i) = has_received_ack ?t"
    "is_an_ack (tskhead e2 ! i) = is_an_ack ?t"
    "unattended (tskhead e2 ! i) = unattended ?t"
    "send_schedule_ptr (tskhead e2 ! i) = send_schedule_ptr ?t"
    "nb_send_schedules (tskhead e2 ! i) = nb_send_schedules ?t"
    "mtime_ref (tskhead e2 ! i) = mtime_ref ?t"
    and S: "st2 = (if unat (send_schedule_pos ?t) + 1 < length (send_schedule_ptr ?t)
            then ST_SEND else ST_SEND_DONE)"
    and M: "mtime_wakeup (tskhead e2 ! i) =
       (if unat (send_schedule_pos ?t) + 1 < length (send_schedule_ptr ?t)
        then mtime_ref ?t + send_schedule_ptr ?t ! (unat (send_schedule_pos ?t) + 1)
        else if unattended ?t then now env
        else now env + send_purge_delay e)"
    by (rule tev_wakeup_sending [OF i st ds nb pos, of env]) blast
  have d: "deliver_timer env i e (status ?t) = Inr (e2, st2)"
    using ew due w by (simp add: deliver_timer_def timer_due_def Let_def)
  let ?e3 = "e2\<lparr>tskhead := (tskhead e2)[i := (tskhead e2 ! i)\<lparr>status := st2\<rparr>]\<rparr>"
  have c: "commit_status i e2 st2 rst = Inr (?e3, rst)"
    using W(9) ew S by (simp add: commit_status_def Let_def)
  have b: "task_body env seen i (e, False, rst) = Inr (?e3, False, rst)"
    by (simp add: task_body_no_frame d c)
  have i2: "i < length (tskhead e2)" using i W(1) by simp
  show thesis
    by (rule that [OF b]) (use i2 ew in \<open>simp_all add: W S M\<close>)
qed

lemma sleep_if_idle_fields:
  "tskhead (sleep_if_idle e) = tskhead e" "funcs (sleep_if_idle e) = funcs e"
  "interrupted (sleep_if_idle e) = interrupted e"
  "tx_log (dev (sleep_if_idle e)) = tx_log (dev e)"
  by (simp_all add: sleep_if_idle_def)

lemma upt_split_at:
  assumes "i < n"
  shows "[0..<n] = [0..<i] @ i # [Suc i..<n]"
proof -
  from assms have "[0..<n] = [0..<i] @ [i..<n]"
    using upt_add_eq_append [of 0 i "n - i"] by simp
  also from assms have "[i..<n] = i # [Suc i..<n]" by (simp add: upt_conv_Cons)
  finally show ?thesis .
qed

lemma do_events_fire:
  assumes reg: "deviceInit (funcs e)" "deviceSend (funcs e)" "setInterrupt (funcs e)"
    and ni: "\<not> interrupted e"
    and i: "i < length (tskhead e)" and s: "sending_task (tskhead e ! i)"
    and due: "timer_due env (tskhead e ! i)"
    and others: "\<forall>k < length (tskhead e). k \<noteq> i \<longrightarrow> quiet_task env (tskhead e ! k)"
  obtains e' where
    "do_events env e = Inr e'"
    "length (tskhead e') = length (tskhead e)"
    "\<forall>k. k \<noteq> i \<longrightarrow> tskhead e' ! k = tskhead e ! k"
    "funcs e' = funcs e" "\<not> interrupted e'"
    "tx_log (dev e') =
       (if need_ack (tskhead e ! i)
           \<and> unat (send_schedule_pos (tskhead e ! i)) + 1 = length (send_schedule_ptr (tskhead e ! i))
        then tx_log (dev e)
        else tx_log (dev e) @ [(pkt (pktkeeper (tskhead e ! i)),
                               get_pkt_len (pktkeeper (tskhead e ! i)))])"
    "send_schedule_pos (tskhead e' ! i) = send_schedule_pos (tskhead e ! i) + 1"
    "status (tskhead e' ! i) =
       (if unat (send_schedule_pos (tskhead e ! i)) + 1 < length (send_schedule_ptr (tskhead e ! i))
        then ST_SEND else ST_SEND_DONE)"
    "evtsub_wakeup (tskhead e' ! i)"
    "evtsub_pktrcvd (tskhead e' ! i) = evtsub_pktrcvd (tskhead e ! i)"
    "need_ack (tskhead e' ! i) = need_ack (tskhead e ! i)"
    "has_received_ack (tskhead e' ! i) = has_received_ack (tskhead e ! i)"
    "is_an_ack (tskhead e' ! i) = is_an_ack (tskhead e ! i)"
    "unattended (tskhead e' ! i) = unattended (tskhead e ! i)"
    "send_schedule_ptr (tskhead e' ! i) = send_schedule_ptr (tskhead e ! i)"
    "nb_send_schedules (tskhead e' ! i) = nb_send_schedules (tskhead e ! i)"
    "mtime_ref (tskhead e' ! i) = mtime_ref (tskhead e ! i)"
    "mtime_wakeup (tskhead e' ! i) =
       (if unat (send_schedule_pos (tskhead e ! i)) + 1 < length (send_schedule_ptr (tskhead e ! i))
        then mtime_ref (tskhead e ! i)
               + send_schedule_ptr (tskhead e ! i) ! (unat (send_schedule_pos (tskhead e ! i)) + 1)
        else if unattended (tskhead e ! i) then now env
        else now env + send_purge_delay e)"
proof -
  let ?n = "length (tskhead e)"
  let ?w = "list_ex evtsub_pktrcvd (tskhead e) \<and> deviceReceive (funcs e)"
  let ?e1 = "if ?w then e\<lparr>interrupt_is_attached := True\<rparr> else e"
  let ?tail = "\<lambda>(e, got_a_pkt, device_needs_reset).
                 Inr (sleep_if_idle (reset_device env device_needs_reset e)) :: error + RFLink"
  have 1: "(if ?w then interrupts_on e else Inr e) = Inr ?e1"
    by (simp add: interrupts_on_reg [OF reg(3)])
  have t1: "tskhead ?e1 = tskhead e" "funcs ?e1 = funcs e" "interrupted ?e1 = interrupted e"
    "dev ?e1 = dev e" "send_purge_delay ?e1 = send_purge_delay e"
    by simp_all
  have L: "do_events env e = err_bind (task_loop env False [0..<?n] (?e1, False, False)) ?tail"
    using reg(1) ni unfolding do_events_def Let_def 1 by (simp add: t1)
  have pre: "task_loop env False [0..<i] (?e1, False, False) = Inr (?e1, False, False)"
    by (rule task_loop_quiet) (use i others in \<open>simp add: t1\<close>)
  have i1: "i < length (tskhead ?e1)" "sending_task (tskhead ?e1 ! i)"
    "deviceSend (funcs ?e1)" "timer_due env (tskhead ?e1 ! i)"
    using i s reg(2) due by (simp_all add: t1)
  obtain e2 where b: "task_body env False i (?e1, False, False) = Inr (e2, False, False)"
    and B: "length (tskhead e2) = length (tskhead ?e1)"
    "\<forall>k. k \<noteq> i \<longrightarrow> tskhead e2 ! k = tskhead ?e1 ! k"
    "funcs e2 = funcs ?e1" "interrupted e2 = interrupted ?e1"
    "interrupt_is_attached e2 = interrupt_is_attached ?e1"
    "tx_log (dev e2) =
       (if need_ack (tskhead ?e1 ! i)
           \<and> unat (send_schedule_pos (tskhead ?e1 ! i)) + 1 = length (send_schedule_ptr (tskhead ?e1 ! i))
        then tx_log (dev ?e1)
        else tx_log (dev ?e1) @ [(pkt (pktkeeper (tskhead ?e1 ! i)),
                               get_pkt_len (pktkeeper (tskhead ?e1 ! i)))])"
    "send_schedule_pos (tskhead e2 ! i) = send_schedule_pos (tskhead ?e1 ! i) + 1"
    "status (tskhead e2 ! i) =
       (if unat (send_schedule_pos (tskhead ?e1 ! i)) + 1 < length (send_schedule_ptr (tskhead ?e1 ! i))
        then ST_SEND else ST_SEND_DONE)"
    "evtsub_wakeup (tskhead e2 ! i)"
    "evtsub_pktrcvd (tskhead e2 ! i) = evtsub_pktrcvd (tskhead ?e1 ! i)"
    "need_ack (tskhead e2 ! i) = need_ack (tskhead ?e1 ! i)"
    "has_received_ack (tskhead e2 ! i) = has_received_ack (tskhead ?e1 ! i)"
    "is_an_ack (tskhead e2 ! i) = is_an_ack (tskhead ?e1 ! i)"
    "unattended (tskhead e2 ! i) = unattended (tskhead ?e1 ! i)"
    "send_schedule_ptr (tskhead e2 ! i) = send_schedule_ptr (tskhead ?e1 ! i)"
    "nb_send_schedules (tskhead e2 ! i) = nb_send_schedules (tskhead ?e1 ! i)"
    "mtime_ref (tskhead e2 ! i) = mtime_ref (tskhead ?e1 ! i)"
    "mtime_wakeup (tskhead e2 ! i) =
       (if unat (send_schedule_pos (tskhead ?e1 ! i)) + 1 < length (send_schedule_ptr (tskhead ?e1 ! i))
        then mtime_ref (tskhead ?e1 ! i)
               + send_schedule_ptr (tskhead ?e1 ! i) ! (unat (send_schedule_pos (tskhead ?e1 ! i)) + 1)
        else if unattended (tskhead ?e1 ! i) then now env
        else now env + send_purge_delay ?e1)"
    by (rule task_body_fire [OF i1, of False False]) blast
  have post: "task_loop env False [Suc i..<?n] (e2, False, False) = Inr (e2, False, False)"
  proof (rule task_loop_quiet)
    show "\<forall>k \<in> set [Suc i..<?n]. k < length (tskhead e2) \<and> quiet_task env (tskhead e2 ! k)"
      using others B(1,2) by (simp add: t1)
  qed
  have loop: "task_loop env False [0..<?n] (?e1, False, False) = Inr (e2, False, False)"
    unfolding upt_split_at [OF i] task_loop_append pre
    by (simp add: b post)
  have r: "do_events env e = Inr (sleep_if_idle e2)"
    unfolding L loop by (simp add: reset_device_def)
  show thesis
    by (rule that [OF r]) (use ni B in \<open>simp_all add: sleep_if_idle_fields t1\<close>)
qed

lemma do_events_quiet:
  assumes reg: "setInterrupt (funcs e)"
    and ni: "\<not> interrupted e"
    and q: "\<forall>k < length (tskhead e). quiet_task env (tskhead e ! k)"
  obtains e' where "do_events env e = Inr e'" "tskhead e' = tskhead e" "funcs e' = funcs e"
    "\<not> interrupted e'" "tx_log (dev e') = tx_log (dev e)"
proof (cases "deviceInit (funcs e)")
  case False
  then have r: "do_events env e = Inr e" by (simp add: do_events_def)
  show ?thesis by (rule that [OF r]) (use ni in simp_all)
next
  case True
  let ?n = "length (tskhead e)"
  let ?w = "list_ex evtsub_pktrcvd (tskhead e) \<and> deviceReceive (funcs e)"
  let ?e1 = "if ?w then e\<lparr>interrupt_is_attached := True\<rparr> else e"
  let ?tail = "\<lambda>(e, got_a_pkt, device_needs_reset).
                 Inr (sleep_if_idle (reset_device env device_needs_reset e)) :: error + RFLink"
  have 1: "(if ?w then interrupts_on e else Inr e) = Inr ?e1"
    by (simp add: interrupts_on_reg [OF reg])
  have t1: "tskhead ?e1 = tskhead e" "funcs ?e1 = funcs e" "interrupted ?e1 = interrupted e"
    "dev ?e1 = dev e"
    by simp_all
  have L: "do_events env e = err_bind (task_loop env False [0..<?n] (?e1, False, False)) ?tail"
    using True ni unfolding do_events_def Let_def 1 by (simp add: t1)
  have loop: "task_loop env False [0..<?n] (?e1, False, False) = Inr (?e1, False, False)"
    by (rule task_loop_quiet) (use q in \<open>simp add: t1\<close>)
  have r: "do_events env e = Inr (sleep_if_idle ?e1)"
    unfolding L loop by (simp add: reset_device_def)
  show ?thesis
    by (rule that [OF r]) (use ni in \<open>simp_all add: sleep_if_idle_fields\<close>)
qed

lemma sending_task_ready: "sending_task tsk \<Longrightarrow> timer_ready tsk"
  using sending_task_nb [of tsk]
  by (simp add: sending_task_def timer_ready_def task_inv_def)

lemma send_noblock_sending:
  assumes r: "send_noblock env dst' payload len' ack e = Inr (e', ERR_TASK_CREATED_OK, tid)"
  obtains j where "j < length (tskhead e')" "status (tskhead e ! j) = ST_NOTHING"
    "sending_task (tskhead e' ! j)" "need_ack (tskhead e' ! j) = ack"
    "send_schedule_ptr (tskhead e' ! j) = (if ack then snd_expack_sched else snd_sched)"
    "send_schedule_pos (tskhead e' ! j) = 0" "mtime_ref (tskhead e' ! j) = now env"
    "\<forall>k. k \<noteq> j \<longrightarrow> tskhead e' ! k = tskhead e ! k" "dev e' = dev e"
proof -
  have F: "deviceInit (funcs e)" "deviceSend (funcs e)" "\<not> len' > max_payload_len e"
      "\<not> (len' = 0 \<and> payload \<noteq> None)"
    using r
    by (auto simp: send_noblock_def ERR_TASK_CREATED_OK_def ERR_DEVICE_NOT_REGISTERED_def
          ERR_SEND_FUNC_NOT_REGISTERED_def ERR_SEND_DATA_LEN_ABOVE_LIMIT_def
          ERR_SEND_BAD_ARGUMENTS_def split: if_splits)
  obtain oj e1 where tc: "task_create env ST_SEND e = (oj, e1)"
    by (cases "task_create env ST_SEND e")
  show thesis
  proof (cases oj)
    case None
    with tc have "e1 = e" by (simp add: task_create_None)
    with F tc None
    have "send_noblock env dst' payload len' ack e = Inr (e, ERR_UNABLE_TO_CREATE_TASK, None)"
      by (auto simp: send_noblock_def)
    with r show ?thesis
      by (simp add: ERR_TASK_CREATED_OK_def ERR_UNABLE_TO_CREATE_TASK_def)
  next
    case (Some j)
    note tc' = tc [unfolded Some]
    note C = task_create_Some [OF tc']
    from tc' have ff: "first_free (tskhead e) 0 = Some j"
      by (simp add: task_create_def Let_def split: if_splits option.splits)
    from tc' ff have e1: "e1 = e\<lparr>last_taskid := last_taskid e + 1,
      tskhead := (tskhead e)[j := (task_initialize (tskhead e ! j))
         \<lparr>taskid := last_taskid e + 1, status := ST_SEND, mtime_ref := now env,
                        is_an_ack := False, need_ack := False, has_received_ack := False,
                        unattended := False, nbsend := 0\<rparr>],
      task_count := task_count e + 1\<rparr>"
      by (simp add: task_create_def Let_def split: if_splits)
    note eq = send_noblock_created [OF F tc']
    let ?h = "\<lparr> dst = dst', src = device_addr e1,
              flags = to_flags 0 (if ack then FLAG_SIN else FLAG_NONE),
              pktid = last_pktid e1 + 1, len = len' \<rparr>"
    from r obtain pk where
      pk: "prepare_for_sending (pktkeeper (tskhead e1 ! j)) (max_payload_len e1) ?h payload = Inr pk"
      unfolding eq
      by (cases "prepare_for_sending (pktkeeper (tskhead e1 ! j)) (max_payload_len e1) ?h payload")
         simp_all
    from r have e': "e' = e1\<lparr>last_pktid := last_pktid e1 + 1,
                 tskhead := (tskhead e1)
                [j := (tskhead e1 ! j)\<lparr>evtsub_wakeup := True,
                        nb_send_schedules := (if ack then snd_expack_sched_len else snd_sched_len),
                        send_schedule_ptr := (if ack then snd_expack_sched else snd_sched),
                        send_schedule_pos := 0,
                        mtime_wakeup := mtime_ref (tskhead e1 ! j),
                        need_ack := (if ack then True else need_ack (tskhead e1 ! j)),
                        evtsub_pktrcvd := (if ack then True else evtsub_pktrcvd (tskhead e1 ! j)),
                        pktkeeper := pk\<rparr>]\<rparr>"
      unfolding eq pk by simp
    have j: "j < length (tskhead e)" by (rule C(1))
    have j1: "j < length (tskhead e1)" using j C(3) by simp
    have t1: "tskhead e1 ! j = (task_initialize (tskhead e ! j))
         \<lparr>taskid := last_taskid e + 1, status := ST_SEND, mtime_ref := now env,
                        is_an_ack := False, need_ack := False, has_received_ack := False,
                        unattended := False, nbsend := 0\<rparr>"
      using j by (simp add: e1)
    show ?thesis
    proof (rule that [of j])
      show "j < length (tskhead e')" using j1 by (simp add: e')
      show "status (tskhead e ! j) = ST_NOTHING" by (rule C(2))
      show "sending_task (tskhead e' ! j)"
        using j1
        by (cases ack)
           (simp_all add: e' t1 sending_task_def snd_expack_sched_def snd_expack_sched_len_def
              snd_sched_def snd_sched_len_def)
      show "need_ack (tskhead e' ! j) = ack" using j1 by (simp add: e' t1)
      show "send_schedule_ptr (tskhead e' ! j) = (if ack then snd_expack_sched else snd_sched)"
        using j1 by (simp add: e')
      show "send_schedule_pos (tskhead e' ! j) = 0" using j1 by (simp add: e')
      show "mtime_ref (tskhead e' ! j) = now env" using j1 by (simp add: e' t1)
      show "\<forall>k. k \<noteq> j \<longrightarrow> tskhead e' ! k = tskhead e ! k" using C(5) by (simp add: e')
      show "dev e' = dev e" by (simp add: e' e1)
    qed
  qed
qed

text \<open>
  Claim C5: the schedules are \<open>[0, 200, 550, 900]\<close> (no ACK expected),
  \<open>[0, 100, 450, 800, 900]\<close> (ACK expected) and \<open>[0]\<close> (sending an ACK).  A task that
  \<^verbatim>\<open>send_noblock\<close> creates is a sending task with the schedule of its kind, its cursor on
  the first entry and the current time as reference time.  Take a tick of the pump with
  no frame pending, in an engine whose other tasks are quiet.  If the clock has not reached
  the reference time of the sending task plus the entry under its cursor (the entries are
  absolute offsets), the tick sends nothing and leaves the tasks as they are.  If it has,
  the tick hands the packet of the task to \<^verbatim>\<open>deviceSend\<close> once, unless the task expects an
  ACK and the entry is the last one, where nothing is sent; the cursor moves to the next
  entry; and the task is again a sending task, which wakes up at the reference time plus
  the next entry, or the entry was the last one and the task is in \<open>ST_SEND_DONE\<close>.  So a
  task that expects an ACK transmits at every entry but the last, and one that does not
  transmits at every entry.
\<close>

theorem send_schedules:
  "snd_sched = [0, 200, 550, 900] \<and> snd_expack_sched = [0, 100, 450, 800, 900]
   \<and> snd_repack_sched = [0]
   \<and> (send_noblock env dst' payload len' ack e0 = Inr (e, ERR_TASK_CREATED_OK, tid) \<longrightarrow>
         (\<exists>j < length (tskhead e).
            sending_task (tskhead e ! j) \<and> need_ack (tskhead e ! j) = ack
            \<and> send_schedule_ptr (tskhead e ! j) = (if ack then snd_expack_sched else snd_sched)
            \<and> send_schedule_pos (tskhead e ! j) = 0 \<and> mtime_ref (tskhead e ! j) = now env))
   \<and> (deviceInit (funcs e) \<and> deviceSend (funcs e) \<and> setInterrupt (funcs e)
        \<and> \<not> interrupted e \<and> i < length (tskhead e) \<and> tsk = tskhead e ! i
        \<and> sending_task tsk
        \<and> (\<forall>k < length (tskhead e). k \<noteq> i \<longrightarrow> quiet_task tick (tskhead e ! k)) \<longrightarrow>
         (\<exists>e'. do_events tick e = Inr e'
            \<and> length (tskhead e') = length (tskhead e)
            \<and> (\<forall>k. k \<noteq> i \<longrightarrow> tskhead e' ! k = tskhead e ! k)
            \<and> funcs e' = funcs e \<and> \<not> interrupted e'
            \<and> (if 0 \<le> sint (now tick - (mtime_ref tsk
                               + send_schedule_ptr tsk ! unat (send_schedule_pos tsk)))
                then tx_log (dev e') =
                       (if need_ack tsk
                           \<and> unat (send_schedule_pos tsk) + 1 = length (send_schedule_ptr tsk)
                        then tx_log (dev e)
                        else tx_log (dev e) @ [(pkt (pktkeeper tsk), get_pkt_len (pktkeeper tsk))])
                   \<and> send_schedule_pos (tskhead e' ! i) = send_schedule_pos tsk + 1
                   \<and> mtime_ref (tskhead e' ! i) = mtime_ref tsk
                   \<and> need_ack (tskhead e' ! i) = need_ack tsk
                   \<and> send_schedule_ptr (tskhead e' ! i) = send_schedule_ptr tsk
                   \<and> (if unat (send_schedule_pos tsk) + 1 < length (send_schedule_ptr tsk)
                       then sending_task (tskhead e' ! i)
                            \<and> mtime_wakeup (tskhead e' ! i)
                                = mtime_ref tsk
                                  + send_schedule_ptr tsk ! (unat (send_schedule_pos tsk) + 1)
                       else status (tskhead e' ! i) = ST_SEND_DONE)
                else tskhead e' = tskhead e \<and> tx_log (dev e') = tx_log (dev e))))"
proof (intro conjI impI)
  show "snd_sched = [0, 200, 550, 900]" by (simp add: snd_sched_def)
  show "snd_expack_sched = [0, 100, 450, 800, 900]" by (simp add: snd_expack_sched_def)
  show "snd_repack_sched = [0]" by (simp add: snd_repack_sched_def)
next
  assume r: "send_noblock env dst' payload len' ack e0 = Inr (e, ERR_TASK_CREATED_OK, tid)"
  from send_noblock_sending [OF r] obtain j where "j < length (tskhead e)"
    "sending_task (tskhead e ! j)" "need_ack (tskhead e ! j) = ack"
    "send_schedule_ptr (tskhead e ! j) = (if ack then snd_expack_sched else snd_sched)"
    "send_schedule_pos (tskhead e ! j) = 0" "mtime_ref (tskhead e ! j) = now env"
    by blast
  then show "\<exists>j < length (tskhead e).
            sending_task (tskhead e ! j) \<and> need_ack (tskhead e ! j) = ack
            \<and> send_schedule_ptr (tskhead e ! j) = (if ack then snd_expack_sched else snd_sched)
            \<and> send_schedule_pos (tskhead e ! j) = 0 \<and> mtime_ref (tskhead e ! j) = now env"
    by blast
next
  assume a: "deviceInit (funcs e) \<and> deviceSend (funcs e) \<and> setInterrupt (funcs e)
        \<and> \<not> interrupted e \<and> i < length (tskhead e) \<and> tsk = tskhead e ! i
        \<and> sending_task tsk
        \<and> (\<forall>k < length (tskhead e). k \<noteq> i \<longrightarrow> quiet_task tick (tskhead e ! k))"
  then have reg: "deviceInit (funcs e)" "deviceSend (funcs e)" "setInterrupt (funcs e)"
    and ni: "\<not> interrupted e" and i: "i < length (tskhead e)" and t: "tsk = tskhead e ! i"
    and s: "sending_task (tskhead e ! i)"
    and others: "\<forall>k < length (tskhead e). k \<noteq> i \<longrightarrow> quiet_task tick (tskhead e ! k)"
    by auto
  let ?t = "tskhead e ! i"
  let ?due = "0 \<le> sint (now tick - (mtime_ref ?t
                 + send_schedule_ptr ?t ! unat (send_schedule_pos ?t)))"
  from s have due_iff: "timer_due tick ?t \<longleftrightarrow> ?due"
    by (simp add: timer_due_def sending_task_def)
  from s have pos: "send_schedule_pos ?t < nb_send_schedules ?t" by (simp add: sending_task_def)
  note nb = sending_task_nb [OF s]
  note b = byte_succ_less [OF pos]
  show "\<exists>e'. do_events tick e = Inr e'
            \<and> length (tskhead e') = length (tskhead e)
            \<and> (\<forall>k. k \<noteq> i \<longrightarrow> tskhead e' ! k = tskhead e ! k)
            \<and> funcs e' = funcs e \<and> \<not> interrupted e'
            \<and> (if 0 \<le> sint (now tick - (mtime_ref tsk
                               + send_schedule_ptr tsk ! unat (send_schedule_pos tsk)))
                then tx_log (dev e') =
                       (if need_ack tsk
                           \<and> unat (send_schedule_pos tsk) + 1 = length (send_schedule_ptr tsk)
                        then tx_log (dev e)
                        else tx_log (dev e) @ [(pkt (pktkeeper tsk), get_pkt_len (pktkeeper tsk))])
                   \<and> send_schedule_pos (tskhead e' ! i) = send_schedule_pos tsk + 1
                   \<and> mtime_ref (tskhead e' ! i) = mtime_ref tsk
                   \<and> need_ack (tskhead e' ! i) = need_ack tsk
                   \<and> send_schedule_ptr (tskhead e' ! i) = send_schedule_ptr tsk
                   \<and> (if unat (send_schedule_pos tsk) + 1 < length (send_schedule_ptr tsk)
                       then sending_task (tskhead e' ! i)
                            \<and> mtime_wakeup (tskhead e' ! i)
                                = mtime_ref tsk
                                  + send_schedule_ptr tsk ! (unat (send_schedule_pos tsk) + 1)
                       else status (tskhead e' ! i) = ST_SEND_DONE)
                else tskhead e' = tskhead e \<and> tx_log (dev e') = tx_log (dev e))"
  proof (cases ?due)
    case True
    then have due: "timer_due tick ?t" using due_iff by simp
    obtain e' where r: "do_events tick e = Inr e'"
      and R: "length (tskhead e') = length (tskhead e)"
      "\<forall>k. k \<noteq> i \<longrightarrow> tskhead e' ! k = tskhead e ! k"
      "funcs e' = funcs e" "\<not> interrupted e'"
      "tx_log (dev e') =
         (if need_ack ?t \<and> unat (send_schedule_pos ?t) + 1 = length (send_schedule_ptr ?t)
          then tx_log (dev e)
          else tx_log (dev e) @ [(pkt (pktkeeper ?t), get_pkt_len (pktkeeper ?t))])"
      "send_schedule_pos (tskhead e' ! i) = send_schedule_pos ?t + 1"
      "status (tskhead e' ! i) =
         (if unat (send_schedule_pos ?t) + 1 < length (send_schedule_ptr ?t)
          then ST_SEND else ST_SEND_DONE)"
      "evtsub_wakeup (tskhead e' ! i)"
      "need_ack (tskhead e' ! i) = need_ack ?t"
      "is_an_ack (tskhead e' ! i) = is_an_ack ?t"
      "send_schedule_ptr (tskhead e' ! i) = send_schedule_ptr ?t"
      "nb_send_schedules (tskhead e' ! i) = nb_send_schedules ?t"
      "mtime_ref (tskhead e' ! i) = mtime_ref ?t"
      "mtime_wakeup (tskhead e' ! i) =
         (if unat (send_schedule_pos ?t) + 1 < length (send_schedule_ptr ?t)
          then mtime_ref ?t + send_schedule_ptr ?t ! (unat (send_schedule_pos ?t) + 1)
          else if unattended ?t then now tick
          else now tick + send_purge_delay e)"
      by (rule do_events_fire [OF reg ni i s due others]) blast
    have more: "sending_task (tskhead e' ! i)
        \<and> mtime_wakeup (tskhead e' ! i)
            = mtime_ref ?t + send_schedule_ptr ?t ! (unat (send_schedule_pos ?t) + 1)"
      if m: "unat (send_schedule_pos ?t) + 1 < length (send_schedule_ptr ?t)"
    proof -
      from m have lt: "send_schedule_pos ?t + 1 < nb_send_schedules ?t" using b(2) nb by simp
      from s have pairing:
        "(need_ack ?t \<and> \<not> is_an_ack ?t \<and> send_schedule_ptr ?t = snd_expack_sched
            \<and> nb_send_schedules ?t = snd_expack_sched_len)
         \<or> (\<not> need_ack ?t \<and> \<not> is_an_ack ?t \<and> send_schedule_ptr ?t = snd_sched
            \<and> nb_send_schedules ?t = snd_sched_len)
         \<or> (\<not> need_ack ?t \<and> is_an_ack ?t \<and> send_schedule_ptr ?t = snd_repack_sched
            \<and> nb_send_schedules ?t = snd_repack_sched_len)"
        by (simp add: sending_task_def)
      show ?thesis
        unfolding sending_task_def
        using m lt pairing by (simp add: R b(1))
    qed
    show ?thesis
      apply (rule exI [of _ e'])
      using True more by (simp add: r R t)
  next
    case False
    then have nd: "\<not> timer_due tick ?t" using due_iff by simp
    have q: "\<forall>k < length (tskhead e). quiet_task tick (tskhead e ! k)"
    proof (intro allI impI)
      fix k assume "k < length (tskhead e)"
      show "quiet_task tick (tskhead e ! k)"
      proof (cases "k = i")
        case True
        with nd sending_task_ready [OF s] show ?thesis by (simp add: quiet_task_def)
      next
        case False
        with others \<open>k < length (tskhead e)\<close> show ?thesis by simp
      qed
    qed
    obtain e' where r: "do_events tick e = Inr e'" and R: "tskhead e' = tskhead e"
      "funcs e' = funcs e" "\<not> interrupted e'" "tx_log (dev e') = tx_log (dev e)"
      by (rule do_events_quiet [OF reg(3) ni q]) blast
    show ?thesis
      apply (rule exI [of _ e'])
      using False by (simp add: r R t)
  qed
qed

lemma sender_created:
  "send_noblock (env_at 10) 0x5E (Some [104, 105, 0]) 3 True idle_state
     = Inr (sender_state, ERR_TASK_CREATED_OK,
            snd (snd (projr (send_noblock (env_at 10) 0x5E (Some [104, 105, 0]) 3 True
                              idle_state))))"
proof -
  let ?r = "send_noblock (env_at 10) 0x5E (Some [104, 105, 0]) 3 True idle_state"
  have b: "\<not> isl (boot 0x0B)" by code_simp
  then have bi: "boot 0x0B = Inr idle_state"
    by (cases "boot 0x0B") (simp_all add: idle_state_def)
  have "\<not> isl ?r" "fst (snd (projr ?r)) = ERR_TASK_CREATED_OK" by code_simp+
  then have "?r = Inr (fst (projr ?r), ERR_TASK_CREATED_OK, snd (snd (projr ?r)))"
    by (cases ?r) auto
  moreover have "sender_state = fst (projr ?r)"
    by (simp add: sender_state_def bi err_bind_def)
  ultimately show ?thesis by simp
qed

lemma schedule_run_facts:
  "deviceInit (funcs sender_state)" "deviceSend (funcs sender_state)"
  "setInterrupt (funcs sender_state)" "\<not> interrupted sender_state"
  "0 < length (tskhead sender_state)" "sending_task (tskhead sender_state ! 0)"
  "list_all (\<lambda>k. k = 0 \<or> quiet_task (env_at 10) (tskhead sender_state ! k))
     [0..<length (tskhead sender_state)]"
  "0 \<le> sint (now (env_at 10) - (mtime_ref (tskhead sender_state ! 0)
       + send_schedule_ptr (tskhead sender_state ! 0)
           ! unat (send_schedule_pos (tskhead sender_state ! 0))))"
  "need_ack (tskhead sender_state ! 0)"
  "unat (send_schedule_pos (tskhead sender_state ! 0)) + 1
     < length (send_schedule_ptr (tskhead sender_state ! 0))"
  "send_schedule_ptr (tskhead sender_state ! 0) ! 1 = 100"
  "mtime_ref (tskhead sender_state ! 0) = 10"
  "send_schedule_pos (tskhead sender_state ! 0) = 0"
  by code_simp+

lemma listening_facts:
  "deviceInit (funcs listening_state)" "deviceSend (funcs listening_state)"
  "setInterrupt (funcs listening_state)" "\<not> interrupted listening_state"
  "0 < length (tskhead listening_state)" "sending_task (tskhead listening_state ! 0)"
  "list_all (\<lambda>k. k = 0 \<or> quiet_task (env_at 850) (tskhead listening_state ! k))
     [0..<length (tskhead listening_state)]"
  "list_all (\<lambda>k. k = 0 \<or> quiet_task (env_at 910) (tskhead listening_state ! k))
     [0..<length (tskhead listening_state)]"
  "\<not> 0 \<le> sint (now (env_at 850) - (mtime_ref (tskhead listening_state ! 0)
       + send_schedule_ptr (tskhead listening_state ! 0)
           ! unat (send_schedule_pos (tskhead listening_state ! 0))))"
  "0 \<le> sint (now (env_at 910) - (mtime_ref (tskhead listening_state ! 0)
       + send_schedule_ptr (tskhead listening_state ! 0)
           ! unat (send_schedule_pos (tskhead listening_state ! 0))))"
  "need_ack (tskhead listening_state ! 0)"
  "unat (send_schedule_pos (tskhead listening_state ! 0)) + 1
     = length (send_schedule_ptr (tskhead listening_state ! 0))"
  "length (tx_log (dev listening_state)) = 4"
  by code_simp+

lemma plain_last_facts:
  "deviceInit (funcs plain_last_state)" "deviceSend (funcs plain_last_state)"
  "setInterrupt (funcs plain_last_state)" "\<not> interrupted plain_last_state"
  "0 < length (tskhead plain_last_state)" "sending_task (tskhead plain_last_state ! 0)"
  "list_all (\<lambda>k. k = 0 \<or> quiet_task (env_at 910) (tskhead plain_last_state ! k))
     [0..<length (tskhead plain_last_state)]"
  "0 \<le> sint (now (env_at 910) - (mtime_ref (tskhead plain_last_state ! 0)
       + send_schedule_ptr (tskhead plain_last_state ! 0)
           ! unat (send_schedule_pos (tskhead plain_last_state ! 0))))"
  "\<not> need_ack (tskhead plain_last_state ! 0)"
  "unat (send_schedule_pos (tskhead plain_last_state ! 0)) + 1
     = length (send_schedule_ptr (tskhead plain_last_state ! 0))"
  "length (tx_log (dev plain_last_state)) = 3"
  by code_simp+

lemma quiet_others:
  "list_all (\<lambda>k. k = i \<or> quiet_task env (tskhead e ! k)) [0..<length (tskhead e)]
   \<Longrightarrow> \<forall>k < length (tskhead e). k \<noteq> i \<longrightarrow> quiet_task env (tskhead e ! k)"
  by (auto simp: list_all_iff)

theorem send_schedules_witness:
  "(\<exists>j < length (tskhead sender_state).
      sending_task (tskhead sender_state ! j) \<and> need_ack (tskhead sender_state ! j)
      \<and> send_schedule_ptr (tskhead sender_state ! j) = snd_expack_sched
      \<and> send_schedule_pos (tskhead sender_state ! j) = 0
      \<and> mtime_ref (tskhead sender_state ! j) = 10)
   \<and> tx_log (dev (projr (do_events (env_at 10) sender_state)))
       = tx_log (dev sender_state)
         @ [(pkt (pktkeeper (tskhead sender_state ! 0)),
             get_pkt_len (pktkeeper (tskhead sender_state ! 0)))]
   \<and> send_schedule_pos (tskhead (projr (do_events (env_at 10) sender_state)) ! 0) = 1
   \<and> mtime_wakeup (tskhead (projr (do_events (env_at 10) sender_state)) ! 0) = 110
   \<and> tskhead (projr (do_events (env_at 850) listening_state)) = tskhead listening_state
   \<and> tx_log (dev (projr (do_events (env_at 850) listening_state)))
       = tx_log (dev listening_state)
   \<and> tx_log (dev (projr (do_events (env_at 910) listening_state)))
       = tx_log (dev listening_state)
   \<and> length (tx_log (dev listening_state)) = 4
   \<and> status (tskhead (projr (do_events (env_at 910) listening_state)) ! 0) = ST_SEND_DONE
   \<and> tx_log (dev (projr (do_events (env_at 910) plain_last_state)))
       = tx_log (dev plain_last_state)
         @ [(pkt (pktkeeper (tskhead plain_last_state ! 0)),
             get_pkt_len (pktkeeper (tskhead plain_last_state ! 0)))]
   \<and> length (tx_log (dev plain_last_state)) = 3
   \<and> status (tskhead (projr (do_events (env_at 910) plain_last_state)) ! 0) = ST_SEND_DONE"
proof -
  note C = send_schedules [THEN conjunct2, THEN conjunct2, THEN conjunct2, THEN conjunct1,
      rule_format, OF sender_created]
  have c: "\<exists>j < length (tskhead sender_state).
      sending_task (tskhead sender_state ! j) \<and> need_ack (tskhead sender_state ! j)
      \<and> send_schedule_ptr (tskhead sender_state ! j) = snd_expack_sched
      \<and> send_schedule_pos (tskhead sender_state ! j) = 0
      \<and> mtime_ref (tskhead sender_state ! j) = 10"
    using C by (simp add: env_at_def)
  note T = send_schedules [THEN conjunct2, THEN conjunct2, THEN conjunct2, THEN conjunct2,
      rule_format]
  have "\<exists>e'. do_events (env_at 10) sender_state = Inr e'
      \<and> tx_log (dev e') = tx_log (dev sender_state)
         @ [(pkt (pktkeeper (tskhead sender_state ! 0)),
             get_pkt_len (pktkeeper (tskhead sender_state ! 0)))]
      \<and> send_schedule_pos (tskhead e' ! 0) = 1 \<and> mtime_wakeup (tskhead e' ! 0) = 110"
    using T [of sender_state 0 "tskhead sender_state ! 0" "env_at 10"]
      schedule_run_facts(1-6) quiet_others [OF schedule_run_facts(7)] schedule_run_facts(8-13)
    by auto
  then have 1: "tx_log (dev (projr (do_events (env_at 10) sender_state)))
       = tx_log (dev sender_state)
         @ [(pkt (pktkeeper (tskhead sender_state ! 0)),
             get_pkt_len (pktkeeper (tskhead sender_state ! 0)))]"
    "send_schedule_pos (tskhead (projr (do_events (env_at 10) sender_state)) ! 0) = 1"
    "mtime_wakeup (tskhead (projr (do_events (env_at 10) sender_state)) ! 0) = 110"
    by auto
  have "\<exists>e'. do_events (env_at 850) listening_state = Inr e'
      \<and> tskhead e' = tskhead listening_state \<and> tx_log (dev e') = tx_log (dev listening_state)"
    using T [of listening_state 0 "tskhead listening_state ! 0" "env_at 850"]
      listening_facts(1-6) quiet_others [OF listening_facts(7)] listening_facts(9)
    by auto
  then have 2: "tskhead (projr (do_events (env_at 850) listening_state)) = tskhead listening_state"
    "tx_log (dev (projr (do_events (env_at 850) listening_state))) = tx_log (dev listening_state)"
    by auto
  have "\<exists>e'. do_events (env_at 910) listening_state = Inr e'
      \<and> tx_log (dev e') = tx_log (dev listening_state)
      \<and> status (tskhead e' ! 0) = ST_SEND_DONE"
    using T [of listening_state 0 "tskhead listening_state ! 0" "env_at 910"]
      listening_facts(1-6) quiet_others [OF listening_facts(8)] listening_facts(10-12)
    by auto
  then have 3: "tx_log (dev (projr (do_events (env_at 910) listening_state)))
       = tx_log (dev listening_state)"
    "status (tskhead (projr (do_events (env_at 910) listening_state)) ! 0) = ST_SEND_DONE"
    by auto
  have "\<exists>e'. do_events (env_at 910) plain_last_state = Inr e'
      \<and> tx_log (dev e') = tx_log (dev plain_last_state)
         @ [(pkt (pktkeeper (tskhead plain_last_state ! 0)),
             get_pkt_len (pktkeeper (tskhead plain_last_state ! 0)))]
      \<and> status (tskhead e' ! 0) = ST_SEND_DONE"
    using T [of plain_last_state 0 "tskhead plain_last_state ! 0" "env_at 910"]
      plain_last_facts(1-6) quiet_others [OF plain_last_facts(7)] plain_last_facts(8-10)
    by auto
  then have 4: "tx_log (dev (projr (do_events (env_at 910) plain_last_state)))
       = tx_log (dev plain_last_state)
         @ [(pkt (pktkeeper (tskhead plain_last_state ! 0)),
             get_pkt_len (pktkeeper (tskhead plain_last_state ! 0)))]"
    "status (tskhead (projr (do_events (env_at 910) plain_last_state)) ! 0) = ST_SEND_DONE"
    by auto
  from c 1 2 3 4 listening_facts(13) plain_last_facts(11) show ?thesis by blast
qed

end
